theory Spec2Isabelle
  imports Complex_Main "HOL-Library.Log_Nat"
begin

section \<open>The N-up composition engine of 2up.py\<close>

text \<open>
  The engine places the pages of one to four source documents into the fixed slots of
  output sheets. The embedding follows \<^verbatim>\<open>src/2up.py\<close> function by function.

  Conventions of the embedding:
  \<^item> In \<open>place_page\<close> and the layout builders the arithmetic of Python floats is read
    exactly, over \<^typ>\<open>real\<close>: this is the reading for everything that does not depend
    on rounding (which branch is taken, which page goes to which slot, the order of the
    operations, the formulas of the offsets). A float division by zero raises
    \<^verbatim>\<open>ZeroDivisionError\<close> in Python and is an error value here.
  \<^item> Where rounding decides, the best-fit scale and the size of the scaled page, the
    division and the multiplication are modelled as they are computed: in IEEE 754
    binary64 with rounding to nearest, ties to even (\<open>round_double\<close>).
  \<^item> An exception is a value \<open>Inl e\<close> of the result type \<open>error + 'a\<close>.
  \<^item> The mutation of the sheet by \<^verbatim>\<open>merge_transformed_page\<close> is explicit state passing:
    a sheet carries the list of merges made onto it, in the order they were made.
\<close>

subsection \<open>Data model\<close>

datatype error =
    ValueError
  | ZeroDivisionError
  | IndexError
  | SystemExit nat

text \<open>
  What \<^verbatim>\<open>getattr(page, "rotation", 0)\<close> can find: no attribute at all, the value
  \<^verbatim>\<open>None\<close>, or an integer (the document library hands out whatever integer the
  document declares).
\<close>

datatype rotation_attr = NoAttr | NoneValue | IntValue int

record page =
  rotation :: rotation_attr
  mediabox_width :: real
  mediabox_height :: real

text \<open>A reader is used only through \<^verbatim>\<open>reader.pages\<close>, its list of pages.\<close>

type_synonym reader = "page list"

text \<open>
  A \<^verbatim>\<open>Transformation\<close> is built by chaining \<^verbatim>\<open>rotate\<close>, \<^verbatim>\<open>scale\<close> and
  \<^verbatim>\<open>translate\<close>; it is kept as the list of the operations in the order of the calls,
  which is the order in which they act on the page content.
\<close>

datatype op = Rotate real | Scale real | Translate real real

type_synonym Transformation = "op list"

text \<open>
  The geometric reading of a transformation, on a point of the plane: a rotation by an
  angle in degrees (counter-clockwise), a uniform scale, a translation.
\<close>

fun apply_op :: "op \<Rightarrow> real \<times> real \<Rightarrow> real \<times> real" where
  "apply_op (Rotate deg) (x, y) =
     (x * cos (deg * pi / 180) - y * sin (deg * pi / 180),
      x * sin (deg * pi / 180) + y * cos (deg * pi / 180))"
| "apply_op (Scale s) (x, y) = (s * x, s * y)"
| "apply_op (Translate tx ty) (x, y) = (x + tx, y + ty)"

fun apply_transformation :: "Transformation \<Rightarrow> real \<times> real \<Rightarrow> real \<times> real" where
  "apply_transformation [] p = p"
| "apply_transformation (f # fs) p = apply_transformation fs (apply_op f p)"

text \<open>
  One call of \<^verbatim>\<open>new_page.merge_transformed_page(src_page, t)\<close>: the page merged and its
  transformation, together with the values the locals \<^verbatim>\<open>base_scale\<close>, \<^verbatim>\<open>scale\<close>,
  \<^verbatim>\<open>x_offset\<close> and \<^verbatim>\<open>y_offset\<close> of \<^verbatim>\<open>place_page\<close> had at the call.
\<close>

record placement =
  src_page :: page
  transformation :: Transformation
  base_scale :: real
  scale :: real
  x_offset :: real
  y_offset :: real

record sheet =
  sheet_width :: real
  sheet_height :: real
  merges :: "placement list"

subsection \<open>Constants\<close>

definition PT_PER_IN :: real where
  "PT_PER_IN = 72"

definition SHEET_SIZES :: "string \<rightharpoonup> real \<times> real" where
  "SHEET_SIZES = map_of
     [(''letter'', (8.5 * PT_PER_IN, 11 * PT_PER_IN)),
      (''a4'', (595, 842))]"

subsection \<open>Geometry: \<^verbatim>\<open>compute_upright_size\<close> and \<^verbatim>\<open>place_page\<close>\<close>

text \<open>\<^verbatim>\<open>getattr(page, "rotation", 0) or 0\<close>: a missing attribute and a falsy value give 0.\<close>

definition rot_of :: "page \<Rightarrow> int" where
  "rot_of pg = (case rotation pg of NoAttr \<Rightarrow> 0 | NoneValue \<Rightarrow> 0 | IntValue r \<Rightarrow> r)"

definition compute_upright_size :: "page \<Rightarrow> real \<times> real \<times> int" where
  "compute_upright_size pg =
     (let rot = rot_of pg;
          w = mediabox_width pg;
          h = mediabox_height pg
      in if rot = 90 \<or> rot = 270 then (h, w, rot) else (w, h, rot))"

text \<open>
  \<^verbatim>\<open>place_page\<close>, with its arithmetic read exactly. What the rounding of the division
  and of the products does to the best-fit scale is the subject of \<open>base_scale_double\<close>
  below; no statement about \<open>place_page\<close> depends on it.
\<close>

definition place_page ::
  "page \<Rightarrow> real \<Rightarrow> real \<Rightarrow> real \<Rightarrow> real \<Rightarrow> real \<Rightarrow> string \<Rightarrow> error + placement" where
  "place_page pg slot_x slot_y slot_w slot_h zoom0 align =
     (let zoom = (if zoom0 \<le> 0 then 1 else zoom0);
          (src_w, src_h, rot) = compute_upright_size pg
      in if src_w = 0 \<or> src_h = 0 then Inl ZeroDivisionError
         else
           let base = min (slot_w / src_w) (slot_h / src_h);
               scale0 = base * zoom;
               scale1 = (if scale0 > base then base else scale0);
               y_off = (if align = ''top'' then slot_y + (slot_h - src_h * scale1)
                        else if align = ''bottom'' then slot_y
                        else slot_y + (slot_h - src_h * scale1) / 2);
               x_off = slot_x + (slot_w - src_w * scale1) / 2;
               t0 = [];
               t1 = (if rot \<noteq> 0 then t0 @ [Rotate (- real_of_int rot)] else t0);
               t2 = t1 @ [Scale scale1];
               t3 = t2 @ [Translate x_off y_off]
           in Inr \<lparr>src_page = pg, transformation = t3, base_scale = base, scale = scale1,
                    x_offset = x_off, y_offset = y_off\<rparr>)"

subsection \<open>Double-precision arithmetic of the best-fit scale\<close>

text \<open>
  A Python float is an IEEE 754 binary64 number: a finite double is given by the real
  number it denotes (the two zeros are not told apart), next to the two infinities and
  NaN.
\<close>

datatype double = Finite real | PosInf | NegInf | NaN

text \<open>The binary exponent \<open>\<lfloor>log\<^sub>2 x\<rfloor>\<close> of a positive number.\<close>

definition exponent :: "real \<Rightarrow> int" where
  "exponent x = (if 1 \<le> x then bitlen \<lfloor>x\<rfloor> - 1 else - bitlen (\<lceil>1 / x\<rceil> - 1))"

text \<open>Rounding to the nearest integer, a tie going to the even one.\<close>

definition round_even :: "real \<Rightarrow> int" where
  "round_even x =
     (let f = \<lfloor>x\<rfloor>; d = x - of_int f
      in if d < 1 / 2 then f
         else if 1 / 2 < d then f + 1
         else if even f then f else f + 1)"

text \<open>
  The double nearest to a real: 53 significant bits on the binade of the number, the
  spacing \<open>2\<^sup>-\<^sup>1\<^sup>0\<^sup>7\<^sup>4\<close> of the subnormal numbers below \<open>2\<^sup>-\<^sup>1\<^sup>0\<^sup>2\<^sup>2\<close>, and an infinity when
  the rounded magnitude reaches \<open>2\<^sup>1\<^sup>0\<^sup>2\<^sup>4\<close>.
\<close>

definition round_double :: "real \<Rightarrow> double" where
  "round_double x =
     (if x = 0 then Finite 0
      else
        let e = max (exponent \<bar>x\<bar>) (- 1022);
            q = 2 powi (e - 52);
            r = of_int (round_even (\<bar>x\<bar> / q)) * q
        in if 2 powi 1024 \<le> r then (if x < 0 then NegInf else PosInf)
           else Finite (if x < 0 then - r else r))"

text \<open>
  \<^verbatim>\<open>a / b\<close> on two finite floats, \<^verbatim>\<open>a * b\<close> on a finite float and a float, the
  comparison \<^verbatim>\<open>a < b\<close>, and \<^verbatim>\<open>min(a, b)\<close>, which returns \<open>b\<close> only when \<open>b < a\<close>.
\<close>

definition float_div :: "real \<Rightarrow> real \<Rightarrow> error + double" where
  "float_div a b = (if b = 0 then Inl ZeroDivisionError else Inr (round_double (a / b)))"

fun float_mul :: "real \<Rightarrow> double \<Rightarrow> double" where
  "float_mul a (Finite b) = round_double (a * b)"
| "float_mul a PosInf = (if 0 < a then PosInf else if a < 0 then NegInf else NaN)"
| "float_mul a NegInf = (if 0 < a then NegInf else if a < 0 then PosInf else NaN)"
| "float_mul a NaN = NaN"

fun double_less :: "double \<Rightarrow> double \<Rightarrow> bool" where
  "double_less (Finite a) (Finite b) = (a < b)"
| "double_less (Finite a) PosInf = True"
| "double_less NegInf (Finite b) = True"
| "double_less NegInf PosInf = True"
| "double_less _ _ = False"

definition float_min :: "double \<Rightarrow> double \<Rightarrow> double" where
  "float_min a b = (if double_less b a then b else a)"

text \<open>
  The line \<^verbatim>\<open>base_scale = min(slot_w / src_w, slot_h / src_h)\<close> of \<^verbatim>\<open>place_page\<close>,
  as computed.
\<close>

definition base_scale_double :: "real \<Rightarrow> real \<Rightarrow> real \<Rightarrow> real \<Rightarrow> error + double" where
  "base_scale_double slot_w slot_h src_w src_h =
     (case float_div slot_w src_w of
        Inl e \<Rightarrow> Inl e
      | Inr a \<Rightarrow>
          (case float_div slot_h src_h of
             Inl e \<Rightarrow> Inl e
           | Inr b \<Rightarrow> Inr (float_min a b)))"

text \<open>A range of positive numbers inside the normal doubles.\<close>

definition normal_range :: "real \<Rightarrow> bool" where
  "normal_range x = (2 powi (- 1022) \<le> x \<and> x < 2 powi 1022)"

subsection \<open>Python list primitives\<close>

text \<open>
  \<^verbatim>\<open>xs[i]\<close>: a negative index counts from the end, an index out of range raises
  \<^verbatim>\<open>IndexError\<close>.
\<close>

definition py_index :: "'a list \<Rightarrow> int \<Rightarrow> error + 'a" where
  "py_index xs i =
     (if 0 \<le> i \<and> i < int (length xs) then Inr (xs ! nat i)
      else if i < 0 \<and> - int (length xs) \<le> i then Inr (xs ! nat (int (length xs) + i))
      else Inl IndexError)"

text \<open>\<^verbatim>\<open>min(counts)\<close> and \<^verbatim>\<open>max(counts)\<close>: \<^verbatim>\<open>ValueError\<close> on an empty list.\<close>

definition py_min :: "nat list \<Rightarrow> error + nat" where
  "py_min xs = (case xs of [] \<Rightarrow> Inl ValueError | y # ys \<Rightarrow> Inr (fold min ys y))"

definition py_max :: "nat list \<Rightarrow> error + nat" where
  "py_max xs = (case xs of [] \<Rightarrow> Inl ValueError | y # ys \<Rightarrow> Inr (fold max ys y))"

subsection \<open>The sheet loop shared by \<^verbatim>\<open>build_writer_2up\<close> and \<^verbatim>\<open>build_writer_4up\<close>\<close>

text \<open>A slot is the tuple \<^verbatim>\<open>(x, y, sw, sh)\<close> of the source.\<close>

type_synonym slot = "real \<times> real \<times> real \<times> real"

text \<open>The expression \<^verbatim>\<open>sources[min(slot_idx, len(sources) - 1)]\<close>.\<close>

definition source_for_slot :: "reader list \<Rightarrow> nat \<Rightarrow> error + reader" where
  "source_for_slot sources slot_idx =
     py_index sources (min (int slot_idx) (int (length sources) - 1))"

text \<open>
  The inner loop \<^verbatim>\<open>for slot_idx, (x, y, sw, sh) in enumerate(slots)\<close> at sheet index
  \<open>i\<close>, over the slots still to visit; \<open>new_page\<close> is the sheet as merged so far.
\<close>

fun fill_slots ::
  "reader list \<Rightarrow> nat \<Rightarrow> real \<Rightarrow> string \<Rightarrow> (nat \<times> slot) list \<Rightarrow> sheet \<Rightarrow> error + sheet" where
  "fill_slots sources i zoom align [] new_page = Inr new_page"
| "fill_slots sources i zoom align ((slot_idx, (x, y, sw, sh)) # rest) new_page =
     (case source_for_slot sources slot_idx of
        Inl e \<Rightarrow> Inl e
      | Inr reader \<Rightarrow>
          if i < length reader then
            (case place_page (reader ! i) x y sw sh zoom align of
               Inl e \<Rightarrow> Inl e
             | Inr p \<Rightarrow>
                 fill_slots sources i zoom align rest
                   (new_page\<lparr>merges := merges new_page @ [p]\<rparr>))
          else fill_slots sources i zoom align rest new_page)"

text \<open>
  The outer loop \<^verbatim>\<open>for i in range(total)\<close>, over the sheet indices still to visit;
  \<open>writer\<close> is the list of the pages added so far.
\<close>

fun compose_sheets ::
  "reader list \<Rightarrow> real \<Rightarrow> real \<Rightarrow> slot list \<Rightarrow> real \<Rightarrow> string \<Rightarrow> nat list \<Rightarrow> sheet list
     \<Rightarrow> error + sheet list" where
  "compose_sheets sources W H slots zoom align [] writer = Inr writer"
| "compose_sheets sources W H slots zoom align (i # is) writer =
     (case fill_slots sources i zoom align (enumerate 0 slots)
             \<lparr>sheet_width = W, sheet_height = H, merges = []\<rparr> of
        Inl e \<Rightarrow> Inl e
      | Inr new_page \<Rightarrow> compose_sheets sources W H slots zoom align is (writer @ [new_page]))"

text \<open>
  From \<^verbatim>\<open>writer = PdfWriter()\<close> to the end of the sheet loop; the two builders have the
  same text there. The result is the list of the pages of the writer, which is what is
  written to the output file.
\<close>

definition compose ::
  "reader list \<Rightarrow> real \<Rightarrow> real \<Rightarrow> slot list \<Rightarrow> real \<Rightarrow> string \<Rightarrow> string \<Rightarrow> error + sheet list" where
  "compose sources W H slots zoom align stop_mode =
     (let counts = map length sources
      in case (if stop_mode = ''shortest'' then py_min counts else py_max counts) of
           Inl e \<Rightarrow> Inl e
         | Inr tot \<Rightarrow> compose_sheets sources W H slots zoom align [0..<tot] [])"

subsection \<open>Layout builders\<close>

text \<open>The sheet size and the slots of \<^verbatim>\<open>build_writer_2up\<close>, as \<open>(W, H, slots)\<close>.\<close>

definition layout_2up :: "string \<Rightarrow> real \<Rightarrow> real \<Rightarrow> error + real \<times> real \<times> slot list" where
  "layout_2up sheet_size margin_in gutter_in =
     (case SHEET_SIZES sheet_size of
        None \<Rightarrow> Inl ValueError
      | Some (base_w, base_h) \<Rightarrow>
          let W = base_h; H = base_w;
              margin = margin_in * PT_PER_IN;
              gutter = gutter_in * PT_PER_IN;
              content_w = W - 2 * margin - gutter;
              content_h = H - 2 * margin;
              slot_w = content_w / 2;
              slot_h = content_h
          in Inr (W, H,
                  [(margin, margin, slot_w, slot_h),
                   (margin + slot_w + gutter, margin, slot_w, slot_h)]))"

definition build_writer_2up ::
  "reader list \<Rightarrow> string \<Rightarrow> string \<Rightarrow> string \<Rightarrow> real \<Rightarrow> real \<Rightarrow> real \<Rightarrow> error + sheet list" where
  "build_writer_2up sources sheet_size align stop_mode margin_in gutter_in zoom =
     (case layout_2up sheet_size margin_in gutter_in of
        Inl e \<Rightarrow> Inl e
      | Inr (W, H, slots) \<Rightarrow> compose sources W H slots zoom align stop_mode)"

text \<open>The sheet size and the slots of \<^verbatim>\<open>build_writer_4up\<close>, as \<open>(W, H, slots)\<close>.\<close>

definition layout_4up ::
  "string \<Rightarrow> string \<Rightarrow> real \<Rightarrow> real \<Rightarrow> real \<Rightarrow> error + real \<times> real \<times> slot list" where
  "layout_4up sheet_size orientation margin_in gutter_x_in gutter_y_in =
     (case SHEET_SIZES sheet_size of
        None \<Rightarrow> Inl ValueError
      | Some (W0, H0) \<Rightarrow>
          let (W, H) = (if orientation = ''landscape'' then (H0, W0) else (W0, H0));
              margin = margin_in * PT_PER_IN;
              gutter_x = gutter_x_in * PT_PER_IN;
              gutter_y = gutter_y_in * PT_PER_IN;
              content_w = W - 2 * margin - gutter_x;
              content_h = H - 2 * margin - gutter_y;
              slot_w = content_w / 2;
              slot_h = content_h / 2
          in Inr (W, H,
                  [(margin, margin + slot_h + gutter_y, slot_w, slot_h),
                   (margin + slot_w + gutter_x, margin + slot_h + gutter_y, slot_w, slot_h),
                   (margin, margin, slot_w, slot_h),
                   (margin + slot_w + gutter_x, margin, slot_w, slot_h)]))"

definition build_writer_4up ::
  "reader list \<Rightarrow> string \<Rightarrow> string \<Rightarrow> string \<Rightarrow> string \<Rightarrow> real \<Rightarrow> real \<Rightarrow> real \<Rightarrow> real
     \<Rightarrow> error + sheet list" where
  "build_writer_4up sources sheet_size orientation align stop_mode margin_in gutter_x_in
       gutter_y_in zoom =
     (case layout_4up sheet_size orientation margin_in gutter_x_in gutter_y_in of
        Inl e \<Rightarrow> Inl e
      | Inr (W, H, slots) \<Rightarrow> compose sources W H slots zoom align stop_mode)"

subsection \<open>\<^verbatim>\<open>main\<close>: argument parsing and dispatch\<close>

record args =
  arg_mode :: string
  arg_sheet :: string
  arg_orientation :: string
  arg_align :: string
  arg_stop :: string
  arg_margin_in :: real
  arg_gutter_in :: real
  arg_gutter_y_in :: real
  arg_zoom :: real

text \<open>
  \<^verbatim>\<open>parser.parse_args()\<close>, for the options declared with \<^verbatim>\<open>choices\<close>: a value that is
  not among the choices makes the parser exit with status 2.
\<close>

definition parse_args :: "args \<Rightarrow> error + args" where
  "parse_args a =
     (if arg_mode a \<notin> set [''2up'', ''4up''] then Inl (SystemExit 2)
      else if arg_sheet a \<notin> set [''letter'', ''a4''] then Inl (SystemExit 2)
      else if arg_orientation a \<notin> set [''portrait'', ''landscape''] then Inl (SystemExit 2)
      else if arg_align a \<notin> set [''center'', ''top'', ''bottom''] then Inl (SystemExit 2)
      else if arg_stop a \<notin> set [''longest'', ''shortest''] then Inl (SystemExit 2)
      else Inr a)"

datatype outcome = NoOutput | Wrote "sheet list"

text \<open>
  \<^verbatim>\<open>main\<close>, from the parsed arguments on. The search for the input files is outside the
  model: \<open>inputs0\<close> is the list that \<^verbatim>\<open>resolve_inputs\<close> or
  \<^verbatim>\<open>get_single_input_from_search\<close> returned, every file of it existing and already read
  (a path stands for its reader).
\<close>

definition main :: "args \<Rightarrow> reader list \<Rightarrow> error + outcome" where
  "main a inputs0 =
     (case parse_args a of
        Inl e \<Rightarrow> Inl e
      | Inr args \<Rightarrow>
          if inputs0 = [] then Inr NoOutput
          else
            let inputs = (if arg_mode args = ''2up'' then take 2 inputs0 else take 4 inputs0)
            in if arg_mode args = ''2up'' then
                 (case build_writer_2up inputs (arg_sheet args) (arg_align args)
                         (arg_stop args) (arg_margin_in args) (arg_gutter_in args)
                         (arg_zoom args) of
                    Inl e \<Rightarrow> Inl e
                  | Inr w \<Rightarrow> Inr (Wrote w))
               else
                 (case build_writer_4up inputs (arg_sheet args) (arg_orientation args)
                         (arg_align args) (arg_stop args) (arg_margin_in args)
                         (arg_gutter_in args) (arg_gutter_y_in args) (arg_zoom args) of
                    Inl e \<Rightarrow> Inl e
                  | Inr w \<Rightarrow> Inr (Wrote w)))"

section \<open>Properties of the placement\<close>

subsection \<open>Rounding to a double\<close>

lemma exponent_bounds:
  assumes "0 < x"
  shows "2 powi (exponent x) \<le> x" and "x < 2 powi (exponent x + 1)"
proof -
  have "2 powi (exponent x) \<le> x \<and> x < 2 powi (exponent x + 1)"
  proof (cases "1 \<le> x")
    case True
    define n where "n = \<lfloor>x\<rfloor>"
    from True have n: "0 < n" unfolding n_def by linarith
    from bitlen_bounds[OF n] have lo: "2 ^ nat (bitlen n - 1) \<le> n" and hi: "n < 2 ^ nat (bitlen n)"
      by simp_all
    from n have b1: "1 \<le> bitlen n" by (simp add: bitlen_alt_def)
    have e: "exponent x = bitlen n - 1" using True by (simp add: exponent_def n_def)
    have "real_of_int (2 ^ nat (bitlen n - 1)) \<le> real_of_int n" using lo by linarith
    also have "real_of_int n \<le> x" unfolding n_def by linarith
    finally have 1: "2 powi (exponent x) \<le> x"
      using b1 by (simp add: e power_int_def)
    from hi have "n + 1 \<le> 2 ^ nat (bitlen n)" by linarith
    then have "real_of_int (n + 1) \<le> real_of_int (2 ^ nat (bitlen n))" by linarith
    moreover have "x < real_of_int (n + 1)" unfolding n_def by linarith
    ultimately have "x < real_of_int (2 ^ nat (bitlen n))" by linarith
    then have 2: "x < 2 powi (exponent x + 1)"
      using b1 by (simp add: e power_int_def)
    from 1 2 show ?thesis ..
  next
    case False
    define y where "y = 1 / x"
    define n where "n = \<lceil>y\<rceil> - 1"
    from False assms have y1: "1 < y" unfolding y_def by simp
    then have n: "0 < n" unfolding n_def by linarith
    have ny: "real_of_int n < y" and yn: "y \<le> real_of_int (n + 1)" unfolding n_def by linarith+
    from bitlen_bounds[OF n] have lo: "2 ^ nat (bitlen n - 1) \<le> n" and hi: "n < 2 ^ nat (bitlen n)"
      by simp_all
    from n have b1: "1 \<le> bitlen n" by (simp add: bitlen_alt_def)
    have e: "exponent x = - bitlen n" using False by (simp add: exponent_def n_def y_def)
    have x: "x = 1 / y" using assms unfolding y_def by simp
    from hi have "n + 1 \<le> 2 ^ nat (bitlen n)" by linarith
    then have "real_of_int (n + 1) \<le> real_of_int (2 ^ nat (bitlen n))" by linarith
    with yn have yk: "y \<le> 2 ^ nat (bitlen n)" by simp
    have "1 / 2 ^ nat (bitlen n) \<le> 1 / y"
      using yk y1 by (intro divide_left_mono) auto
    moreover have "2 powi (- bitlen n) = (1::real) / 2 ^ nat (bitlen n)"
      using b1 by (simp add: power_int_def field_simps)
    ultimately have "2 powi (- bitlen n) \<le> 1 / y" by simp
    then have 1: "2 powi (exponent x) \<le> x" unfolding e y_def by simp
    have "(2::real) ^ nat (bitlen n - 1) = real_of_int (2 ^ nat (bitlen n - 1))" by simp
    also have "\<dots> \<le> real_of_int n" using lo by (simp only: of_int_le_iff)
    also have "\<dots> < y" by (rule ny)
    finally have ky: "2 ^ nat (bitlen n - 1) < y" .
    have "1 / y < 1 / 2 ^ nat (bitlen n - 1)"
      using ky y1 by (intro divide_strict_left_mono mult_pos_pos) auto
    moreover have "2 powi (- bitlen n + 1) = (1::real) / 2 ^ nat (bitlen n - 1)"
    proof (cases "bitlen n = 1")
      case True
      then show ?thesis by simp
    next
      case False
      with b1 have "- bitlen n + 1 < 0" by simp
      moreover have "nat (- (- bitlen n + 1)) = nat (bitlen n - 1)" by simp
      ultimately show ?thesis by (simp add: power_int_def field_simps)
    qed
    ultimately have "1 / y < 2 powi (- bitlen n + 1)" by simp
    then have 2: "x < 2 powi (exponent x + 1)" unfolding e y_def by simp
    from 1 2 show ?thesis ..
  qed
  then show "2 powi (exponent x) \<le> x" and "x < 2 powi (exponent x + 1)" by simp_all
qed

lemma round_even_bounds:
  "\<bar>real_of_int (round_even m) - m\<bar> \<le> 1 / 2"
  unfolding round_even_def Let_def by (auto; linarith)

lemma round_even_nonneg: "0 \<le> m \<Longrightarrow> 0 \<le> round_even m"
  unfolding round_even_def Let_def by (auto; linarith)

lemma round_double_upper:
  assumes "0 \<le> x" and "x \<le> B" and "2 powi (- 1022) \<le> B" and "B < 2 powi 1023"
  shows "\<exists>r. round_double x = Finite r \<and> 0 \<le> r \<and> r \<le> B * (1 + 2 powi (- 53))"
proof (cases "x = 0")
  case True
  have "(0::real) < 2 powi (- 1022)" by simp
  with assms(3) have "0 < B" by linarith
  moreover have "(0::real) < 1 + 2 powi (- 53)" by (simp add: add_pos_pos)
  ultimately have "0 \<le> B * (1 + 2 powi (- 53))" by simp
  with True show ?thesis by (simp add: round_double_def)
next
  case False
  with assms(1) have x: "0 < x" by simp
  define e where "e = max (exponent x) (- 1022)"
  define q :: real where "q = 2 powi (e - 52)"
  define k where "k = round_even (x / q)"
  define r where "r = real_of_int k * q"
  have q: "0 < q" unfolding q_def by simp
  have B: "0 < B" using x assms(2) by linarith
  have "2 powi e \<le> B"
  proof (cases "exponent x \<le> - 1022")
    case True
    then have "e = - 1022" unfolding e_def by simp
    with assms(3) show ?thesis by simp
  next
    case False
    then have "e = exponent x" unfolding e_def by simp
    with exponent_bounds(1)[OF x] assms(2) show ?thesis by simp
  qed
  moreover have "q / 2 = 2 powi e * 2 powi (- 53)"
  proof -
    have "(2::real) powi (e - 52) = 2 powi (e + (- 53)) * 2"
      using power_int_add[of "2::real" "e + (- 53)" 1] by simp
    also have "(2::real) powi (e + (- 53)) = 2 powi e * 2 powi (- 53)"
      by (rule power_int_add) simp
    finally show ?thesis unfolding q_def by simp
  qed
  ultimately have hq: "q / 2 \<le> B * 2 powi (- 53)"
    by (simp add: mult_right_mono)
  from x q have m: "0 \<le> x / q" by simp
  from round_even_nonneg[OF m] have k0: "0 \<le> k" unfolding k_def .
  then have r0: "0 \<le> r" unfolding r_def using q by simp
  from round_even_bounds[of "x / q"] have "real_of_int k \<le> x / q + 1 / 2"
    unfolding k_def by linarith
  then have "real_of_int k * q \<le> (x / q + 1 / 2) * q"
    using q by (intro mult_right_mono) simp_all
  also have "\<dots> = x + q / 2" using q by (simp add: field_simps)
  finally have "r \<le> x + q / 2" unfolding r_def .
  with hq assms(2) have ub: "r \<le> B * (1 + 2 powi (- 53))"
    by (simp add: algebra_simps)
  have "(2::real) powi (- 53) < 1" by simp
  then have "B * (1 + 2 powi (- 53)) < B * 2" using B by simp
  also have "\<dots> < 2 powi 1023 * 2" using assms(4) by simp
  also have "\<dots> = 2 powi 1024" by simp
  finally have "B * (1 + 2 powi (- 53)) < 2 powi 1024" .
  with ub have fin: "\<not> 2 powi 1024 \<le> r" by linarith
  have "round_double x = Finite r"
    using x False fin
    unfolding round_double_def Let_def r_def k_def q_def e_def
    by simp
  with r0 ub show ?thesis by blast
qed

lemma normal_rangeD:
  assumes "normal_range x"
  shows "0 \<le> x" and "2 powi (- 1022) \<le> x" and "x < 2 powi 1023" and "x < 2 powi 1022"
proof -
  from assms show lo: "2 powi (- 1022) \<le> x" and hi: "x < 2 powi 1022"
    by (simp_all add: normal_range_def)
  have "(0::real) < 2 powi (- 1022)" by simp
  with lo show "0 \<le> x" by linarith
  have "(2::real) powi 1022 \<le> 2 powi 1023" by simp
  with hi show "x < 2 powi 1023" by linarith
qed

lemma scaled_size_bound:
  assumes "0 < src" and "normal_range slot" and "0 \<le> base"
    and "base \<le> slot / src * (1 + 2 powi (- 53))"
  shows "\<exists>p. float_mul src (Finite base) = Finite p \<and> p \<le> slot * (1 + 2 powi (- 53))\<^sup>2"
proof -
  let ?u = "(2::real) powi (- 53)"
  have u: "0 < ?u" "?u < 1" by simp_all
  note s = normal_rangeD[OF assms(2)]
  have "src * base \<le> src * (slot / src * (1 + ?u))"
    using assms(1,4) by (intro mult_left_mono) simp_all
  also have "\<dots> = slot * (1 + ?u)" using assms(1) by simp
  finally have 1: "src * base \<le> slot * (1 + ?u)" .
  have 0: "0 \<le> src * base" using assms(1,3) by simp
  have "slot * 1 \<le> slot * (1 + ?u)" using s(1) u by (intro mult_left_mono) simp_all
  with s(2) have 2: "2 powi (- 1022) \<le> slot * (1 + ?u)" by simp
  have "slot * (1 + ?u) \<le> slot * 2" using s(1) u by (intro mult_left_mono) simp_all
  also have "\<dots> < 2 powi 1022 * 2" using s(4) by simp
  also have "\<dots> = 2 powi 1023" by simp
  finally have 3: "slot * (1 + ?u) < 2 powi 1023" .
  from round_double_upper[OF 0 1 2 3] obtain p where
    "round_double (src * base) = Finite p" and "p \<le> slot * (1 + ?u) * (1 + ?u)" by blast
  then show ?thesis by (auto simp: power2_eq_square algebra_simps)
qed

subsection \<open>The best-fit scale\<close>

lemma round_double_44_5: "round_double (44 / 5) = Finite (4953959590107546 / 2 ^ 49)"
proof -
  have e: "exponent (44 / 5) = 3" by (simp add: exponent_def compute_bitlen)
  have k: "round_even (44 / 5 * 2 ^ 49) = 4953959590107546"
    by (simp add: round_even_def Let_def)
  from e k show ?thesis
    by (simp add: round_double_def Let_def power_int_minus field_simps)
qed

lemma round_double_68_5: "round_double (68 / 5) = Finite (7656119366529843 / 2 ^ 49)"
proof -
  have e: "exponent (68 / 5) = 3" by (simp add: exponent_def compute_bitlen)
  have k: "round_even (68 / 5 * 2 ^ 49) = 7656119366529843"
    by (simp add: round_even_def Let_def)
  from e k show ?thesis
    by (simp add: round_double_def Let_def power_int_minus field_simps)
qed

lemma round_double_product:
  "round_double (45 * (4953959590107546 / 2 ^ 49)) = Finite (396 + 1 / 2 ^ 44)"
proof -
  have v: "45 * (4953959590107546 / 2 ^ 49) = (6966505673588736 + 9 / 16) / (2 ^ 44 :: real)"
    by simp
  have e: "exponent ((6966505673588736 + 9 / 16) / 2 ^ 44) = 8"
    by (simp add: exponent_def compute_bitlen)
  have k: "round_even (6966505673588736 + 9 / 16) = 6966505673588737"
    by (simp add: round_even_def Let_def)
  have "round_double ((6966505673588736 + 9 / 16) / 2 ^ 44) = Finite (396 + 1 / 2 ^ 44)"
    using e k by (simp add: round_double_def Let_def power_int_minus field_simps)
  with v show ?thesis by simp
qed

text \<open>
  C1, the claim as stated fails: the scaled page can overflow the slot. For a page of
  45 by 45 points in a slot of 396 by 612 points the quotient \<open>396 / 45\<close> is rounded up
  to the next double, and 45 times the best-fit scale is the double after 396.
\<close>

theorem fit_scale_overflow_counterexample:
  "base_scale_double 396 612 45 45 = Inr (Finite (4953959590107546 / 2 ^ 49))
   \<and> float_mul 45 (Finite (4953959590107546 / 2 ^ 49)) = Finite (396 + 1 / 2 ^ 44)
   \<and> (396::real) < 396 + 1 / 2 ^ 44"
proof -
  have "(396::real) / 45 = 44 / 5" and "(612::real) / 45 = 68 / 5" by simp_all
  with round_double_44_5 round_double_68_5
  have 1: "base_scale_double 396 612 45 45 = Inr (Finite (4953959590107546 / 2 ^ 49))"
    by (simp add: base_scale_double_def float_div_def float_min_def)
  from round_double_product
  have 2: "float_mul 45 (Finite (4953959590107546 / 2 ^ 49)) = Finite (396 + 1 / 2 ^ 44)"
    by simp
  have 3: "(396::real) < 396 + 1 / 2 ^ 44" by simp
  from 1 2 3 show ?thesis by (intro conjI)
qed

text \<open>
  C1, amended. For every slot and every page size with positive dimensions (the slot
  sizes and the two quotients in the range of the normal doubles), the best-fit scale is
  \<open>min (slot_w / src_w) (slot_h / src_h)\<close>, each quotient rounded to a double, and the page
  scaled by it overflows the slot by no more than the rounding of the two operations:
  \<open>src_w * base_scale \<le> slot_w * (1 + 2\<^sup>-\<^sup>5\<^sup>3)\<^sup>2\<close>, and the same for the height.
\<close>

theorem fit_scale_rounding_bound:
  assumes "0 < src_w" and "0 < src_h"
    and "normal_range (slot_w / src_w)" and "normal_range (slot_h / src_h)"
    and "normal_range slot_w" and "normal_range slot_h"
  shows "\<exists>a b pw ph.
           round_double (slot_w / src_w) = Finite a \<and> round_double (slot_h / src_h) = Finite b
         \<and> base_scale_double slot_w slot_h src_w src_h = Inr (Finite (min a b))
         \<and> float_mul src_w (Finite (min a b)) = Finite pw
         \<and> pw \<le> slot_w * (1 + 2 powi (- 53))\<^sup>2
         \<and> float_mul src_h (Finite (min a b)) = Finite ph
         \<and> ph \<le> slot_h * (1 + 2 powi (- 53))\<^sup>2"
proof -
  let ?u = "(2::real) powi (- 53)"
  note qw = normal_rangeD[OF assms(3)] and qh = normal_rangeD[OF assms(4)]
  from round_double_upper[OF qw(1) order_refl qw(2) qw(3)] obtain a where
    a: "round_double (slot_w / src_w) = Finite a" "0 \<le> a" "a \<le> slot_w / src_w * (1 + ?u)"
    by blast
  from round_double_upper[OF qh(1) order_refl qh(2) qh(3)] obtain b where
    b: "round_double (slot_h / src_h) = Finite b" "0 \<le> b" "b \<le> slot_h / src_h * (1 + ?u)"
    by blast
  have base: "base_scale_double slot_w slot_h src_w src_h = Inr (Finite (min a b))"
    using assms(1,2) a(1) b(1)
    by (simp add: base_scale_double_def float_div_def float_min_def min_def)
  have m0: "0 \<le> min a b" using a(2) b(2) by simp
  have mw: "min a b \<le> slot_w / src_w * (1 + ?u)" using a(3) by simp
  have mh: "min a b \<le> slot_h / src_h * (1 + ?u)" using b(3) by simp
  from scaled_size_bound[OF assms(1) assms(5) m0 mw] obtain pw where
    pw: "float_mul src_w (Finite (min a b)) = Finite pw" "pw \<le> slot_w * (1 + ?u)\<^sup>2" by blast
  from scaled_size_bound[OF assms(2) assms(6) m0 mh] obtain ph where
    ph: "float_mul src_h (Finite (min a b)) = Finite ph" "ph \<le> slot_h * (1 + ?u)\<^sup>2" by blast
  from a(1) b(1) base pw ph show ?thesis by blast
qed

theorem fit_scale_rounding_bound_witness:
  "(0::real) < 612 \<and> (0::real) < 792
   \<and> normal_range (396 / 612) \<and> normal_range (612 / 792)
   \<and> normal_range 396 \<and> normal_range 612
   \<and> (\<exists>a b pw ph.
           round_double (396 / 612) = Finite a \<and> round_double (612 / 792) = Finite b
         \<and> base_scale_double 396 612 612 792 = Inr (Finite (min a b))
         \<and> float_mul 612 (Finite (min a b)) = Finite pw
         \<and> pw \<le> 396 * (1 + 2 powi (- 53))\<^sup>2
         \<and> float_mul 792 (Finite (min a b)) = Finite ph
         \<and> ph \<le> 612 * (1 + 2 powi (- 53))\<^sup>2)"
proof -
  have 1: "(0::real) < 612" and 2: "(0::real) < 792" by simp_all
  have 3: "normal_range (396 / 612)" and 4: "normal_range (612 / 792)"
    and 5: "normal_range 396" and 6: "normal_range 612"
    by (simp_all add: normal_range_def)
  from fit_scale_rounding_bound[OF 1 2 3 4 5 6] 1 2 3 4 5 6 show ?thesis by (intro conjI)
qed

subsection \<open>The zoom\<close>

text \<open>
  C2. The docstring of \<^verbatim>\<open>place_page\<close> and the help of \<^verbatim>\<open>--zoom\<close> say that a zoom above
  1.0 is clamped so that the page never exceeds the slot. The test
  \<^verbatim>\<open>if scale > base_scale\<close> misses the clamp when the best-fit scale is negative (a slot
  of negative size, which a 6 inch margin on a letter sheet produces in the 2-up layout):
  with a zoom of 2 the scale is twice the best-fit scale, not the best-fit scale. The
  second equation is the whole 2-up run with that margin and that zoom.
\<close>

theorem zoom_cap_counterexample:
  "place_page \<lparr>rotation = NoAttr, mediabox_width = 36, mediabox_height = 252\<rparr>
      432 432 (- 36) (- 252) 2 ''center''
   = Inr \<lparr>src_page = \<lparr>rotation = NoAttr, mediabox_width = 36, mediabox_height = 252\<rparr>,
          transformation = [Scale (- 2), Translate 450 558],
          base_scale = - 1, scale = - 2, x_offset = 450, y_offset = 558\<rparr>
   \<and> build_writer_2up [[\<lparr>rotation = NoAttr, mediabox_width = 36, mediabox_height = 252\<rparr>]]
       ''letter'' ''center'' ''longest'' 6 0 2
   = Inr [\<lparr>sheet_width = 792, sheet_height = 612,
           merges =
             [\<lparr>src_page = \<lparr>rotation = NoAttr, mediabox_width = 36, mediabox_height = 252\<rparr>,
               transformation = [Scale (- 2), Translate 450 558],
               base_scale = - 1, scale = - 2, x_offset = 450, y_offset = 558\<rparr>,
              \<lparr>src_page = \<lparr>rotation = NoAttr, mediabox_width = 36, mediabox_height = 252\<rparr>,
               transformation = [Scale (- 2), Translate 414 558],
               base_scale = - 1, scale = - 2, x_offset = 414, y_offset = 558\<rparr>]\<rparr>]"
  by (simp add: build_writer_2up_def layout_2up_def SHEET_SIZES_def PT_PER_IN_def
        compose_def py_max_def Let_def upt_rec enumerate_eq_zip source_for_slot_def
        py_index_def place_page_def compute_upright_size_def rot_of_def)

text \<open>
  On every slot whose best-fit scale is not negative the clamp does what the docstring
  says: a zoom above 1 gives exactly the best-fit scale, and a zoom that is not positive
  counts as 1.
\<close>

lemma effective_scale_clamped:
  assumes "place_page pg slot_x slot_y slot_w slot_h zoom align = Inr p"
  shows "(zoom \<le> 0 \<longrightarrow> scale p = base_scale p)
       \<and> (0 < zoom \<longrightarrow> scale p = min (base_scale p * zoom) (base_scale p))
       \<and> scale p \<le> base_scale p
       \<and> (1 < zoom \<and> 0 \<le> base_scale p \<longrightarrow> scale p = base_scale p)"
proof -
  obtain src_w src_h rot where u: "compute_upright_size pg = (src_w, src_h, rot)"
    by (cases "compute_upright_size pg") auto
  define z where "z = (if zoom \<le> 0 then 1 else zoom)"
  define b where "b = min (slot_w / src_w) (slot_h / src_h)"
  from assms u have bp: "base_scale p = b" and sp: "scale p = (if b * z > b then b else b * z)"
    by (auto simp: place_page_def Let_def z_def b_def split: if_splits)
  have 1: "zoom \<le> 0 \<longrightarrow> scale p = base_scale p"
    by (simp add: bp sp z_def)
  have 2: "0 < zoom \<longrightarrow> scale p = min (base_scale p * zoom) (base_scale p)"
    by (auto simp: bp sp z_def min_def)
  have 3: "scale p \<le> base_scale p"
    by (simp add: bp sp)
  have 4: "1 < zoom \<and> 0 \<le> base_scale p \<longrightarrow> scale p = base_scale p"
  proof
    assume h: "1 < zoom \<and> 0 \<le> base_scale p"
    then have "b * 1 \<le> b * z" unfolding z_def bp by (intro mult_left_mono) auto
    then show "scale p = base_scale p" by (auto simp: bp sp)
  qed
  from 1 2 3 4 show ?thesis by blast
qed

subsection \<open>The upright size\<close>

text \<open>
  C5, the claim as stated fails: a rotation value that is none of 0, 90, 180, 270 is
  not replaced by 0; it is returned as it is, with the dimensions unswapped.
\<close>

theorem upright_malformed_counterexample:
  "compute_upright_size \<lparr>rotation = IntValue 45, mediabox_width = 612, mediabox_height = 792\<rparr>
     = (612, 792, 45)"
  by (simp add: compute_upright_size_def rot_of_def)

text \<open>
  C5, amended. \<^verbatim>\<open>compute_upright_size\<close> returns the media rectangle's width and height
  unchanged for a rotation of 0 or 180 and swapped for 90 or 270, each with that
  rotation; it returns rotation 0 with unswapped dimensions when the page has no rotation
  attribute or the attribute is \<^verbatim>\<open>None\<close>; every other integer is returned as the
  rotation, with unswapped dimensions.
\<close>

theorem upright_size_cases:
  "(rotation pg = IntValue r \<and> (r = 0 \<or> r = 180) \<longrightarrow>
      compute_upright_size pg = (mediabox_width pg, mediabox_height pg, r))
   \<and> (rotation pg = IntValue r \<and> (r = 90 \<or> r = 270) \<longrightarrow>
      compute_upright_size pg = (mediabox_height pg, mediabox_width pg, r))
   \<and> (rotation pg = NoAttr \<or> rotation pg = NoneValue \<longrightarrow>
      compute_upright_size pg = (mediabox_width pg, mediabox_height pg, 0))
   \<and> (rotation pg = IntValue r \<and> r \<noteq> 90 \<and> r \<noteq> 270 \<longrightarrow>
      compute_upright_size pg = (mediabox_width pg, mediabox_height pg, r))"
  by (auto simp: compute_upright_size_def rot_of_def)

theorem upright_size_cases_witness:
  "compute_upright_size \<lparr>rotation = IntValue 180, mediabox_width = 612, mediabox_height = 792\<rparr>
     = (612, 792, 180)
   \<and> compute_upright_size \<lparr>rotation = IntValue 270, mediabox_width = 612, mediabox_height = 792\<rparr>
     = (792, 612, 270)
   \<and> compute_upright_size \<lparr>rotation = NoneValue, mediabox_width = 612, mediabox_height = 792\<rparr>
     = (612, 792, 0)
   \<and> compute_upright_size \<lparr>rotation = IntValue 450, mediabox_width = 612, mediabox_height = 792\<rparr>
     = (612, 792, 450)"
  using upright_size_cases [of "\<lparr>rotation = IntValue 180, mediabox_width = 612, mediabox_height = 792\<rparr>" 180]
        upright_size_cases [of "\<lparr>rotation = IntValue 270, mediabox_width = 612, mediabox_height = 792\<rparr>" 270]
        upright_size_cases [of "\<lparr>rotation = NoneValue, mediabox_width = 612, mediabox_height = 792\<rparr>" 0]
        upright_size_cases [of "\<lparr>rotation = IntValue 450, mediabox_width = 612, mediabox_height = 792\<rparr>" 450]
  by simp

section \<open>Properties of the sheet loop\<close>

subsection \<open>What a returning run has done\<close>

lemma py_min_Min: "xs \<noteq> [] \<Longrightarrow> py_min xs = Inr (Min (set xs))"
proof (cases xs)
  case Nil
  assume "xs \<noteq> []"
  with Nil show ?thesis by simp
next
  case (Cons y ys)
  have "fold min ys y = Min (set (y # ys))" by (rule Min.set_eq_fold [symmetric])
  with Cons show ?thesis by (simp add: py_min_def)
qed

lemma py_max_Max: "xs \<noteq> [] \<Longrightarrow> py_max xs = Inr (Max (set xs))"
proof (cases xs)
  case Nil
  assume "xs \<noteq> []"
  with Nil show ?thesis by simp
next
  case (Cons y ys)
  have "fold max ys y = Max (set (y # ys))" by (rule Max.set_eq_fold [symmetric])
  with Cons show ?thesis by (simp add: py_max_def)
qed

lemma py_min_Inr: "py_min xs = Inr n \<Longrightarrow> xs \<noteq> [] \<and> n = Min (set xs)"
  using py_min_Min [of xs] by (cases "xs = []") (auto simp: py_min_def)

lemma py_max_Inr: "py_max xs = Inr n \<Longrightarrow> xs \<noteq> [] \<and> n = Max (set xs)"
  using py_max_Max [of xs] by (cases "xs = []") (auto simp: py_max_def)

lemma source_for_slot_nonempty:
  assumes "sources \<noteq> []"
  shows "source_for_slot sources s = Inr (sources ! min s (length sources - 1))"
proof -
  define j where "j = min (int s) (int (length sources) - 1)"
  from assms have n: "0 < length sources" by simp
  have 1: "nat j = min s (length sources - 1)"
    using n unfolding j_def by linarith
  have 2: "0 \<le> j" using n unfolding j_def by linarith
  have 3: "j < int (length sources)" unfolding j_def by simp
  have "py_index sources j = Inr (sources ! nat j)"
    using 2 3 by (simp add: py_index_def)
  with 1 show ?thesis
    by (simp add: source_for_slot_def j_def)
qed

lemma fill_slots_Inr:
  assumes "sources \<noteq> []"
    and "fill_slots sources i zoom align es sh = Inr sh'"
  shows "sheet_width sh' = sheet_width sh \<and> sheet_height sh' = sheet_height sh
       \<and> map src_page (merges sh') =
           map src_page (merges sh)
           @ map (\<lambda>e. (sources ! min (fst e) (length sources - 1)) ! i)
               (filter (\<lambda>e. i < length (sources ! min (fst e) (length sources - 1))) es)"
  using assms(2)
proof (induction es arbitrary: sh)
  case Nil
  then show ?case by simp
next
  case (Cons e es)
  obtain s x y sw shh where e: "e = (s, (x, y, sw, shh))" by (cases e) auto
  show ?case
  proof (cases "i < length (sources ! min s (length sources - 1))")
    case True
    with Cons.prems e source_for_slot_nonempty[OF assms(1), of s]
    obtain p where p: "place_page ((sources ! min s (length sources - 1)) ! i) x y sw shh zoom align = Inr p"
      and r: "fill_slots sources i zoom align es (sh\<lparr>merges := merges sh @ [p]\<rparr>) = Inr sh'"
      by (auto split: sum.splits)
    from p have "src_page p = (sources ! min s (length sources - 1)) ! i"
      by (auto simp: place_page_def Let_def split: prod.splits if_splits)
    with Cons.IH[OF r] True e show ?thesis by simp
  next
    case False
    with Cons.prems e source_for_slot_nonempty[OF assms(1), of s]
    have "fill_slots sources i zoom align es sh = Inr sh'" by simp
    from Cons.IH[OF this] False e show ?thesis by simp
  qed
qed

lemma compose_sheets_Inr:
  assumes "compose_sheets sources W H slots zoom align is writer = Inr out"
  shows "\<exists>new. out = writer @ new
           \<and> list_all2 (\<lambda>i sh. fill_slots sources i zoom align (enumerate 0 slots)
                 \<lparr>sheet_width = W, sheet_height = H, merges = []\<rparr> = Inr sh) is new"
  using assms
proof (induction "is" arbitrary: writer)
  case Nil
  then show ?case by simp
next
  case (Cons i "is")
  from Cons.prems obtain np where
    np: "fill_slots sources i zoom align (enumerate 0 slots)
           \<lparr>sheet_width = W, sheet_height = H, merges = []\<rparr> = Inr np"
    and r: "compose_sheets sources W H slots zoom align is (writer @ [np]) = Inr out"
    by (auto split: sum.splits)
  from Cons.IH[OF r] obtain new where "out = (writer @ [np]) @ new"
    and "list_all2 (\<lambda>i sh. fill_slots sources i zoom align (enumerate 0 slots)
                 \<lparr>sheet_width = W, sheet_height = H, merges = []\<rparr> = Inr sh) is new"
    by blast
  with np show ?case by (intro exI[of _ "np # new"]) simp
qed

lemma compose_Inr:
  assumes "compose sources W H slots zoom align stop_mode = Inr out"
  shows "sources \<noteq> []"
    and "length out = (if stop_mode = ''shortest'' then Min (set (map length sources))
                       else Max (set (map length sources)))"
    and "\<forall>i<length out. fill_slots sources i zoom align (enumerate 0 slots)
                 \<lparr>sheet_width = W, sheet_height = H, merges = []\<rparr> = Inr (out ! i)"
proof -
  from assms obtain tot where
    tot: "(if stop_mode = ''shortest'' then py_min (map length sources)
           else py_max (map length sources)) = Inr tot"
    and c: "compose_sheets sources W H slots zoom align [0..<tot] [] = Inr out"
    by (auto simp: compose_def Let_def split: sum.splits)
  from tot show ne: "sources \<noteq> []"
    by (auto dest: py_min_Inr py_max_Inr split: if_splits)
  from compose_sheets_Inr[OF c] have
    l: "list_all2 (\<lambda>i sh. fill_slots sources i zoom align (enumerate 0 slots)
                 \<lparr>sheet_width = W, sheet_height = H, merges = []\<rparr> = Inr sh) [0..<tot] out"
    by simp
  then have len: "length out = tot" by (auto dest: list_all2_lengthD)
  with tot show "length out = (if stop_mode = ''shortest'' then Min (set (map length sources))
                       else Max (set (map length sources)))"
    by (auto dest: py_min_Inr py_max_Inr split: if_splits)
  from l len show "\<forall>i<length out. fill_slots sources i zoom align (enumerate 0 slots)
                 \<lparr>sheet_width = W, sheet_height = H, merges = []\<rparr> = Inr (out ! i)"
    by (auto simp: list_all2_conv_all_nth)
qed

subsection \<open>When a run returns\<close>

lemma place_page_ok:
  assumes "mediabox_width pg \<noteq> 0" and "mediabox_height pg \<noteq> 0"
  shows "\<exists>p. place_page pg x y sw sh zoom align = Inr p"
  using assms by (auto simp: place_page_def compute_upright_size_def Let_def)

lemma fill_slots_ok:
  assumes "sources \<noteq> []"
    and "\<forall>r\<in>set sources. \<forall>pg\<in>set r. mediabox_width pg \<noteq> 0 \<and> mediabox_height pg \<noteq> 0"
  shows "\<exists>sh'. fill_slots sources i zoom align es sh = Inr sh'"
proof (induction es arbitrary: sh)
  case Nil
  show ?case by simp
next
  case (Cons e es)
  obtain s x y sw shh where e: "e = (s, (x, y, sw, shh))" by (cases e) auto
  let ?r = "sources ! min s (length sources - 1)"
  from assms(1) have "min s (length sources - 1) < length sources"
    by (cases sources) auto
  then have mem: "?r \<in> set sources" by (rule nth_mem)
  note src = source_for_slot_nonempty[OF assms(1), of s]
  show ?case
  proof (cases "i < length ?r")
    case True
    then have "?r ! i \<in> set ?r" by simp
    with assms(2) mem have "mediabox_width (?r ! i) \<noteq> 0" "mediabox_height (?r ! i) \<noteq> 0"
      by blast+
    from place_page_ok[OF this] obtain p where
      "place_page (?r ! i) x y sw shh zoom align = Inr p" by blast
    with True e src Cons.IH[of "sh\<lparr>merges := merges sh @ [p]\<rparr>"] show ?thesis by simp
  next
    case False
    with e src Cons.IH[of sh] show ?thesis by simp
  qed
qed

lemma compose_sheets_ok:
  assumes "sources \<noteq> []"
    and "\<forall>r\<in>set sources. \<forall>pg\<in>set r. mediabox_width pg \<noteq> 0 \<and> mediabox_height pg \<noteq> 0"
  shows "\<exists>out. compose_sheets sources W H slots zoom align is writer = Inr out"
proof (induction "is" arbitrary: writer)
  case Nil
  show ?case by simp
next
  case (Cons i "is")
  from fill_slots_ok[OF assms] obtain np where
    "fill_slots sources i zoom align (enumerate 0 slots)
       \<lparr>sheet_width = W, sheet_height = H, merges = []\<rparr> = Inr np" by blast
  with Cons.IH[of "writer @ [np]"] show ?case by simp
qed

lemma compose_ok:
  assumes "sources \<noteq> []"
    and "\<forall>r\<in>set sources. \<forall>pg\<in>set r. mediabox_width pg \<noteq> 0 \<and> mediabox_height pg \<noteq> 0"
  shows "\<exists>out. compose sources W H slots zoom align stop_mode = Inr out"
proof -
  from assms(1) have "map length sources \<noteq> []" by simp
  from py_min_Min[OF this] py_max_Max[OF this] compose_sheets_ok[OF assms]
  show ?thesis by (simp add: compose_def Let_def)
qed

subsection \<open>The pages on each sheet\<close>

lemma map_filter_fst:
  "map (\<lambda>e. f (fst e)) (filter (\<lambda>e. P (fst e)) es) = map f (filter P (map fst es))"
  by (induction es) auto

lemma compose_sheet_pages:
  assumes "compose sources W H slots zoom align stop_mode = Inr out" and "i < length out"
  shows "sheet_width (out ! i) = W \<and> sheet_height (out ! i) = H
       \<and> map src_page (merges (out ! i)) =
           map (\<lambda>s. (sources ! min s (length sources - 1)) ! i)
             (filter (\<lambda>s. i < length (sources ! min s (length sources - 1)))
                [0..<length slots])"
proof -
  let ?f = "\<lambda>s. (sources ! min s (length sources - 1)) ! i"
  let ?P = "\<lambda>s. i < length (sources ! min s (length sources - 1))"
  from compose_Inr(1)[OF assms(1)] have ne: "sources \<noteq> []" .
  from compose_Inr(3)[OF assms(1)] assms(2)
  have "fill_slots sources i zoom align (enumerate 0 slots)
          \<lparr>sheet_width = W, sheet_height = H, merges = []\<rparr> = Inr (out ! i)" by blast
  from fill_slots_Inr[OF ne this]
  have wh: "sheet_width (out ! i) = W \<and> sheet_height (out ! i) = H"
    and m: "map src_page (merges (out ! i)) =
              map (\<lambda>e. ?f (fst e)) (filter (\<lambda>e. ?P (fst e)) (enumerate 0 slots))"
    by simp_all
  have "map (\<lambda>e. ?f (fst e)) (filter (\<lambda>e. ?P (fst e)) (enumerate 0 slots))
          = map ?f (filter ?P (map fst (enumerate 0 slots)))"
    by (rule map_filter_fst)
  moreover have "map fst (enumerate 0 slots) = [0..<length slots]"
    by (simp add: map_fst_enumerate)
  ultimately show ?thesis using wh m by simp
qed

lemma SHEET_SIZES_Some:
  "SHEET_SIZES s = Some (w, h) \<longleftrightarrow> (s = ''letter'' \<and> w = 612 \<and> h = 792) \<or> (s = ''a4'' \<and> w = 595 \<and> h = 842)"
  by (auto simp: SHEET_SIZES_def PT_PER_IN_def)

lemma layout_2up_Inr:
  assumes "layout_2up sheet_size margin_in gutter_in = Inr (W, H, slots)"
  shows "length slots = 2"
  using assms by (auto simp: layout_2up_def Let_def split: option.splits)

lemma layout_4up_Inr:
  assumes "layout_4up sheet_size orientation margin_in gutter_x_in gutter_y_in = Inr (W, H, slots)"
  shows "length slots = 4"
  using assms by (auto simp: layout_4up_def Let_def split: option.splits if_splits)

lemma build_writer_2up_Inr:
  assumes "build_writer_2up sources sheet_size align stop_mode margin_in gutter_in zoom = Inr out"
  shows "\<exists>W H slots. layout_2up sheet_size margin_in gutter_in = Inr (W, H, slots)
           \<and> length slots = 2
           \<and> compose sources W H slots zoom align stop_mode = Inr out"
  using assms layout_2up_Inr
  by (fastforce simp: build_writer_2up_def split: sum.splits)

lemma build_writer_4up_Inr:
  assumes "build_writer_4up sources sheet_size orientation align stop_mode margin_in
             gutter_x_in gutter_y_in zoom = Inr out"
  shows "\<exists>W H slots. layout_4up sheet_size orientation margin_in gutter_x_in gutter_y_in
                        = Inr (W, H, slots)
           \<and> length slots = 4
           \<and> compose sources W H slots zoom align stop_mode = Inr out"
  using assms layout_4up_Inr
  by (fastforce simp: build_writer_4up_def split: sum.splits)

lemma layout_2up_known:
  assumes "SHEET_SIZES sheet_size = Some (bw, bh)"
  shows "\<exists>W H slots. layout_2up sheet_size margin_in gutter_in = Inr (W, H, slots)"
  using assms by (simp add: layout_2up_def Let_def)

lemma layout_4up_known:
  assumes "SHEET_SIZES sheet_size = Some (bw, bh)"
  shows "\<exists>W H slots. layout_4up sheet_size orientation margin_in gutter_x_in gutter_y_in
                        = Inr (W, H, slots)"
  using assms by (cases "orientation = ''landscape''") (simp_all add: layout_4up_def Let_def)

text \<open>
  C3. A run of either builder that returns has a non-empty source list and has produced
  as many sheets as the least page count of the sources when the stop policy is
  \<^verbatim>\<open>shortest\<close>, and as the greatest page count otherwise (\<^verbatim>\<open>longest\<close>). A run
  returns whenever the source list is not empty, the sheet size is known and no page has
  a media rectangle of width or height zero.
\<close>

theorem sheet_count_stop_policy:
  "(build_writer_2up sources sheet_size align stop_mode margin_in gutter_in zoom = Inr out2
      \<longrightarrow> sources \<noteq> []
        \<and> length out2 = (if stop_mode = ''shortest'' then Min (set (map length sources))
                          else Max (set (map length sources))))
   \<and> (build_writer_4up sources sheet_size orientation align stop_mode margin_in gutter_in
         gutter_y_in zoom = Inr out4
      \<longrightarrow> sources \<noteq> []
        \<and> length out4 = (if stop_mode = ''shortest'' then Min (set (map length sources))
                          else Max (set (map length sources))))
   \<and> (sources \<noteq> [] \<and> sheet_size \<in> dom SHEET_SIZES
        \<and> (\<forall>r\<in>set sources. \<forall>pg\<in>set r. mediabox_width pg \<noteq> 0 \<and> mediabox_height pg \<noteq> 0)
      \<longrightarrow> (\<exists>out. build_writer_2up sources sheet_size align stop_mode margin_in gutter_in zoom
                   = Inr out)
        \<and> (\<exists>out. build_writer_4up sources sheet_size orientation align stop_mode margin_in
                   gutter_in gutter_y_in zoom = Inr out))"
proof (intro conjI impI)
  assume "build_writer_2up sources sheet_size align stop_mode margin_in gutter_in zoom = Inr out2"
  from build_writer_2up_Inr[OF this] obtain W H slots where
    c: "compose sources W H slots zoom align stop_mode = Inr out2" by blast
  from compose_Inr(1)[OF c] show "sources \<noteq> []" .
  from compose_Inr(2)[OF c]
  show "length out2 = (if stop_mode = ''shortest'' then Min (set (map length sources))
                          else Max (set (map length sources)))" .
next
  assume "build_writer_4up sources sheet_size orientation align stop_mode margin_in gutter_in
         gutter_y_in zoom = Inr out4"
  from build_writer_4up_Inr[OF this] obtain W H slots where
    c: "compose sources W H slots zoom align stop_mode = Inr out4" by blast
  from compose_Inr(1)[OF c] show "sources \<noteq> []" .
  from compose_Inr(2)[OF c]
  show "length out4 = (if stop_mode = ''shortest'' then Min (set (map length sources))
                          else Max (set (map length sources)))" .
next
  assume a: "sources \<noteq> [] \<and> sheet_size \<in> dom SHEET_SIZES
        \<and> (\<forall>r\<in>set sources. \<forall>pg\<in>set r. mediabox_width pg \<noteq> 0 \<and> mediabox_height pg \<noteq> 0)"
  then obtain bw bh where s: "SHEET_SIZES sheet_size = Some (bw, bh)" by auto
  from a have ne: "sources \<noteq> []"
    and ok: "\<forall>r\<in>set sources. \<forall>pg\<in>set r. mediabox_width pg \<noteq> 0 \<and> mediabox_height pg \<noteq> 0"
    by simp_all
  from layout_2up_known[OF s] obtain W H slots where
    "layout_2up sheet_size margin_in gutter_in = Inr (W, H, slots)" by blast
  with compose_ok[OF ne ok, of W H slots zoom align stop_mode]
  show "\<exists>out. build_writer_2up sources sheet_size align stop_mode margin_in gutter_in zoom
                   = Inr out"
    by (simp add: build_writer_2up_def)
  from layout_4up_known[OF s] obtain W' H' slots' where
    "layout_4up sheet_size orientation margin_in gutter_in gutter_y_in = Inr (W', H', slots')"
    by blast
  with compose_ok[OF ne ok, of W' H' slots' zoom align stop_mode]
  show "\<exists>out. build_writer_4up sources sheet_size orientation align stop_mode margin_in
                   gutter_in gutter_y_in zoom = Inr out"
    by (simp add: build_writer_4up_def)
qed

theorem sheet_count_stop_policy_witness:
  "(\<exists>out. build_writer_2up
            [[\<lparr>rotation = NoAttr, mediabox_width = 612, mediabox_height = 792\<rparr>],
             [\<lparr>rotation = NoAttr, mediabox_width = 612, mediabox_height = 792\<rparr>,
              \<lparr>rotation = IntValue 90, mediabox_width = 792, mediabox_height = 612\<rparr>,
              \<lparr>rotation = NoAttr, mediabox_width = 612, mediabox_height = 792\<rparr>]]
            ''letter'' ''center'' ''longest'' 0 0 1 = Inr out \<and> length out = 3)
   \<and> (\<exists>out. build_writer_4up
            [[\<lparr>rotation = NoAttr, mediabox_width = 612, mediabox_height = 792\<rparr>],
             [\<lparr>rotation = NoAttr, mediabox_width = 612, mediabox_height = 792\<rparr>,
              \<lparr>rotation = IntValue 90, mediabox_width = 792, mediabox_height = 612\<rparr>,
              \<lparr>rotation = NoAttr, mediabox_width = 612, mediabox_height = 792\<rparr>]]
            ''letter'' ''portrait'' ''center'' ''shortest'' 0 0 0 1 = Inr out \<and> length out = 1)"
proof -
  let ?A = "\<lparr>rotation = NoAttr, mediabox_width = 612, mediabox_height = 792\<rparr>"
  let ?B = "\<lparr>rotation = IntValue 90, mediabox_width = 792, mediabox_height = 612\<rparr>"
  let ?S = "[[?A], [?A, ?B, ?A]]"
  have ok: "?S \<noteq> [] \<and> ''letter'' \<in> dom SHEET_SIZES
        \<and> (\<forall>r\<in>set ?S. \<forall>pg\<in>set r. mediabox_width pg \<noteq> 0 \<and> mediabox_height pg \<noteq> 0)"
    by (simp add: SHEET_SIZES_def)
  have mx: "(if ''longest'' = ''shortest'' then Min (set (map length ?S))
             else Max (set (map length ?S))) = 3" by simp
  have mn: "(if ''shortest'' = ''shortest'' then Min (set (map length ?S))
             else Max (set (map length ?S))) = 1" by simp
  from sheet_count_stop_policy[of ?S "''letter''" "''center''" "''longest''" 0 0 1 _ "''portrait''" 0] ok
  obtain o2 where o2: "build_writer_2up ?S ''letter'' ''center'' ''longest'' 0 0 1 = Inr o2"
    by blast
  from sheet_count_stop_policy[of ?S "''letter''" "''center''" "''longest''" 0 0 1 o2] o2 mx
  have l2: "length o2 = 3" by simp
  from sheet_count_stop_policy[of ?S "''letter''" "''center''" "''shortest''" 0 0 1 _ "''portrait''" 0] ok
  obtain o4 where o4: "build_writer_4up ?S ''letter'' ''portrait'' ''center'' ''shortest'' 0 0 0 1 = Inr o4"
    by blast
  from sheet_count_stop_policy[of ?S "''letter''" "''center''" "''shortest''" 0 0 1 _ "''portrait''" 0 o4] o4 mn
  have l4: "length o4 = 1" by simp
  from o2 l2 o4 l4 show ?thesis by blast
qed

lemma source_for_slot_last:
  assumes "sources \<noteq> []" and "length sources \<le> s"
  shows "source_for_slot sources s = Inr (last sources)"
proof -
  from assms have "min s (length sources - 1) = length sources - 1" by simp
  with source_for_slot_nonempty[OF assms(1), of s] assms(1)
  show ?thesis by (simp add: last_conv_nth)
qed

text \<open>
  C4. For a non-empty source list the source that supplies slot \<open>s\<close> is
  \<open>sources ! min s (length sources - 1)\<close>, hence the last source for every slot index at
  or beyond the number of sources. In the output of either builder, the pages merged onto
  sheet \<open>i\<close> are, in slot order, page \<open>i\<close> of that source for every slot whose source
  has a page \<open>i\<close>.
\<close>

theorem slot_source_assignment:
  "(sources \<noteq> [] \<longrightarrow>
      source_for_slot sources s = Inr (sources ! min s (length sources - 1)))
   \<and> (sources \<noteq> [] \<and> length sources \<le> s \<longrightarrow>
      source_for_slot sources s = Inr (last sources))
   \<and> (build_writer_2up sources sheet_size align stop_mode margin_in gutter_in zoom = Inr out2
        \<and> i < length out2 \<longrightarrow>
      map src_page (merges (out2 ! i)) =
        map (\<lambda>s. (sources ! min s (length sources - 1)) ! i)
          (filter (\<lambda>s. i < length (sources ! min s (length sources - 1))) [0..<2]))
   \<and> (build_writer_4up sources sheet_size orientation align stop_mode margin_in gutter_in
         gutter_y_in zoom = Inr out4
        \<and> j < length out4 \<longrightarrow>
      map src_page (merges (out4 ! j)) =
        map (\<lambda>s. (sources ! min s (length sources - 1)) ! j)
          (filter (\<lambda>s. j < length (sources ! min s (length sources - 1))) [0..<4]))"
proof (intro conjI impI)
  assume "sources \<noteq> []"
  then show "source_for_slot sources s = Inr (sources ! min s (length sources - 1))"
    by (rule source_for_slot_nonempty)
next
  assume "sources \<noteq> [] \<and> length sources \<le> s"
  then show "source_for_slot sources s = Inr (last sources)"
    by (simp add: source_for_slot_last)
next
  assume a: "build_writer_2up sources sheet_size align stop_mode margin_in gutter_in zoom
               = Inr out2 \<and> i < length out2"
  then obtain W H slots where l: "length slots = 2"
    and c: "compose sources W H slots zoom align stop_mode = Inr out2"
    using build_writer_2up_Inr by blast
  from compose_sheet_pages[OF c, of i] a l
  show "map src_page (merges (out2 ! i)) =
        map (\<lambda>s. (sources ! min s (length sources - 1)) ! i)
          (filter (\<lambda>s. i < length (sources ! min s (length sources - 1))) [0..<2])"
    by simp
next
  assume a: "build_writer_4up sources sheet_size orientation align stop_mode margin_in
               gutter_in gutter_y_in zoom = Inr out4 \<and> j < length out4"
  then obtain W H slots where l: "length slots = 4"
    and c: "compose sources W H slots zoom align stop_mode = Inr out4"
    using build_writer_4up_Inr by blast
  from compose_sheet_pages[OF c, of j] a l
  show "map src_page (merges (out4 ! j)) =
        map (\<lambda>s. (sources ! min s (length sources - 1)) ! j)
          (filter (\<lambda>s. j < length (sources ! min s (length sources - 1))) [0..<4])"
    by simp
qed

theorem slot_source_assignment_witness:
  "source_for_slot
      [[\<lparr>rotation = NoAttr, mediabox_width = 612, mediabox_height = 792\<rparr>],
       [\<lparr>rotation = IntValue 90, mediabox_width = 792, mediabox_height = 612\<rparr>]] 3
     = Inr [\<lparr>rotation = IntValue 90, mediabox_width = 792, mediabox_height = 612\<rparr>]
   \<and> (\<exists>out. build_writer_4up
          [[\<lparr>rotation = NoAttr, mediabox_width = 612, mediabox_height = 792\<rparr>],
           [\<lparr>rotation = IntValue 90, mediabox_width = 792, mediabox_height = 612\<rparr>]]
          ''letter'' ''portrait'' ''center'' ''longest'' 0 0 0 1 = Inr out
        \<and> 0 < length out
        \<and> map src_page (merges (out ! 0)) =
            [\<lparr>rotation = NoAttr, mediabox_width = 612, mediabox_height = 792\<rparr>,
             \<lparr>rotation = IntValue 90, mediabox_width = 792, mediabox_height = 612\<rparr>,
             \<lparr>rotation = IntValue 90, mediabox_width = 792, mediabox_height = 612\<rparr>,
             \<lparr>rotation = IntValue 90, mediabox_width = 792, mediabox_height = 612\<rparr>])
   \<and> (\<exists>out. build_writer_2up
          [[\<lparr>rotation = NoAttr, mediabox_width = 612, mediabox_height = 792\<rparr>],
           [\<lparr>rotation = IntValue 90, mediabox_width = 792, mediabox_height = 612\<rparr>]]
          ''letter'' ''center'' ''longest'' 0 0 1 = Inr out
        \<and> 0 < length out
        \<and> map src_page (merges (out ! 0)) =
            [\<lparr>rotation = NoAttr, mediabox_width = 612, mediabox_height = 792\<rparr>,
             \<lparr>rotation = IntValue 90, mediabox_width = 792, mediabox_height = 612\<rparr>])"
proof -
  let ?A = "\<lparr>rotation = NoAttr, mediabox_width = 612, mediabox_height = 792\<rparr>"
  let ?B = "\<lparr>rotation = IntValue 90, mediabox_width = 792, mediabox_height = 612\<rparr>"
  let ?S = "[[?A], [?B]]"
  have ne: "?S \<noteq> []" and le: "length ?S \<le> 3" by simp_all
  obtain o4 where o4: "build_writer_4up ?S ''letter'' ''portrait'' ''center'' ''longest'' 0 0 0 1
                         = Inr o4" and l4: "0 < length o4"
    by (simp add: build_writer_4up_def layout_4up_def SHEET_SIZES_def PT_PER_IN_def
          compose_def py_max_def Let_def upt_rec enumerate_eq_zip source_for_slot_def
          py_index_def place_page_def compute_upright_size_def rot_of_def)
  obtain o2 where o2: "build_writer_2up ?S ''letter'' ''center'' ''longest'' 0 0 1 = Inr o2"
    and l2: "0 < length o2"
    by (simp add: build_writer_2up_def layout_2up_def SHEET_SIZES_def PT_PER_IN_def
          compose_def py_max_def Let_def upt_rec enumerate_eq_zip source_for_slot_def
          py_index_def place_page_def compute_upright_size_def rot_of_def)
  note th = slot_source_assignment[of ?S 3 "''letter''" "''center''" "''longest''" 0 0 1 o2 0
              "''portrait''" 0 o4 0]
  from th ne le have 1: "source_for_slot ?S 3 = Inr [?B]" by simp
  from th o4 l4 have 2: "map src_page (merges (o4 ! 0)) = [?A, ?B, ?B, ?B]"
    by (simp add: upt_rec)
  from th o2 l2 have 3: "map src_page (merges (o2 ! 0)) = [?A, ?B]"
    by (simp add: upt_rec)
  have 4: "\<exists>out. build_writer_4up ?S ''letter'' ''portrait'' ''center'' ''longest'' 0 0 0 1
                   = Inr out
             \<and> 0 < length out \<and> map src_page (merges (out ! 0)) = [?A, ?B, ?B, ?B]"
    using o4 l4 2 by (intro exI[of _ o4] conjI)
  have 5: "\<exists>out. build_writer_2up ?S ''letter'' ''center'' ''longest'' 0 0 1 = Inr out
             \<and> 0 < length out \<and> map src_page (merges (out ! 0)) = [?A, ?B]"
    using o2 l2 3 by (intro exI[of _ o2] conjI)
  from 1 4 5 show ?thesis by (intro conjI)
qed

lemma shortest_all_slots:
  assumes "compose sources W H slots zoom align ''shortest'' = Inr out" and "i < length out"
  shows "map src_page (merges (out ! i)) =
           map (\<lambda>s. (sources ! min s (length sources - 1)) ! i) [0..<length slots]"
proof -
  from compose_Inr(1)[OF assms(1)] have ne: "sources \<noteq> []" .
  from compose_Inr(2)[OF assms(1)] have len: "length out = Min (set (map length sources))"
    by simp
  have "i < length (sources ! min s (length sources - 1))" for s
  proof -
    from ne have "min s (length sources - 1) < length sources" by (cases sources) auto
    then have "length (sources ! min s (length sources - 1)) \<in> set (map length sources)"
      by simp
    then have "Min (set (map length sources)) \<le> length (sources ! min s (length sources - 1))"
      by (intro Min_le) simp_all
    with len assms(2) show ?thesis by simp
  qed
  then have "filter (\<lambda>s. i < length (sources ! min s (length sources - 1))) [0..<length slots]
               = [0..<length slots]"
    by simp
  with compose_sheet_pages[OF assms] show ?thesis by simp
qed

text \<open>
  C10. Under the stop policy \<^verbatim>\<open>shortest\<close> no slot of any output sheet is left blank:
  every sheet \<open>i\<close> of a 2-up run carries two merges and every sheet of a 4-up run four,
  one per slot in slot order, the merge of slot \<open>s\<close> being page \<open>i\<close> of the source
  assigned to the slot.
\<close>

theorem shortest_fills_every_slot:
  "(build_writer_2up sources sheet_size align ''shortest'' margin_in gutter_in zoom = Inr out2
        \<and> i < length out2 \<longrightarrow>
      length (merges (out2 ! i)) = 2
      \<and> map src_page (merges (out2 ! i)) =
          map (\<lambda>s. (sources ! min s (length sources - 1)) ! i) [0..<2])
   \<and> (build_writer_4up sources sheet_size orientation align ''shortest'' margin_in gutter_in
         gutter_y_in zoom = Inr out4
        \<and> j < length out4 \<longrightarrow>
      length (merges (out4 ! j)) = 4
      \<and> map src_page (merges (out4 ! j)) =
          map (\<lambda>s. (sources ! min s (length sources - 1)) ! j) [0..<4])"
proof (intro conjI impI)
  assume a: "build_writer_2up sources sheet_size align ''shortest'' margin_in gutter_in zoom
               = Inr out2 \<and> i < length out2"
  then obtain W H slots where l: "length slots = 2"
    and c: "compose sources W H slots zoom align ''shortest'' = Inr out2"
    using build_writer_2up_Inr by blast
  from shortest_all_slots[OF c, of i] a l
  show m: "map src_page (merges (out2 ! i)) =
          map (\<lambda>s. (sources ! min s (length sources - 1)) ! i) [0..<2]" by simp
  have "length (merges (out2 ! i)) = length (map src_page (merges (out2 ! i)))" by simp
  also have "\<dots> = 2" unfolding m by simp
  finally show "length (merges (out2 ! i)) = 2" .
next
  assume a: "build_writer_4up sources sheet_size orientation align ''shortest'' margin_in
               gutter_in gutter_y_in zoom = Inr out4 \<and> j < length out4"
  then obtain W H slots where l: "length slots = 4"
    and c: "compose sources W H slots zoom align ''shortest'' = Inr out4"
    using build_writer_4up_Inr by blast
  from shortest_all_slots[OF c, of j] a l
  show m: "map src_page (merges (out4 ! j)) =
          map (\<lambda>s. (sources ! min s (length sources - 1)) ! j) [0..<4]" by simp
  have "length (merges (out4 ! j)) = length (map src_page (merges (out4 ! j)))" by simp
  also have "\<dots> = 4" unfolding m by simp
  finally show "length (merges (out4 ! j)) = 4" .
qed

theorem shortest_fills_every_slot_witness:
  "(\<exists>out. build_writer_2up
          [[\<lparr>rotation = NoAttr, mediabox_width = 612, mediabox_height = 792\<rparr>],
           [\<lparr>rotation = IntValue 90, mediabox_width = 792, mediabox_height = 612\<rparr>,
            \<lparr>rotation = NoAttr, mediabox_width = 612, mediabox_height = 792\<rparr>,
            \<lparr>rotation = NoAttr, mediabox_width = 612, mediabox_height = 792\<rparr>]]
          ''letter'' ''center'' ''shortest'' 0 0 1 = Inr out
        \<and> 0 < length out
        \<and> length (merges (out ! 0)) = 2)
   \<and> (\<exists>out. build_writer_4up
          [[\<lparr>rotation = NoAttr, mediabox_width = 612, mediabox_height = 792\<rparr>],
           [\<lparr>rotation = IntValue 90, mediabox_width = 792, mediabox_height = 612\<rparr>,
            \<lparr>rotation = NoAttr, mediabox_width = 612, mediabox_height = 792\<rparr>,
            \<lparr>rotation = NoAttr, mediabox_width = 612, mediabox_height = 792\<rparr>]]
          ''letter'' ''portrait'' ''center'' ''shortest'' 0 0 0 1 = Inr out
        \<and> 0 < length out
        \<and> length (merges (out ! 0)) = 4)"
proof -
  let ?A = "\<lparr>rotation = NoAttr, mediabox_width = 612, mediabox_height = 792\<rparr>"
  let ?B = "\<lparr>rotation = IntValue 90, mediabox_width = 792, mediabox_height = 612\<rparr>"
  let ?S = "[[?A], [?B, ?A, ?A]]"
  obtain o4 where o4: "build_writer_4up ?S ''letter'' ''portrait'' ''center'' ''shortest'' 0 0 0 1
                         = Inr o4" and l4: "0 < length o4"
    by (simp add: build_writer_4up_def layout_4up_def SHEET_SIZES_def PT_PER_IN_def
          compose_def py_min_def Let_def upt_rec enumerate_eq_zip source_for_slot_def
          py_index_def place_page_def compute_upright_size_def rot_of_def)
  obtain o2 where o2: "build_writer_2up ?S ''letter'' ''center'' ''shortest'' 0 0 1 = Inr o2"
    and l2: "0 < length o2"
    by (simp add: build_writer_2up_def layout_2up_def SHEET_SIZES_def PT_PER_IN_def
          compose_def py_min_def Let_def upt_rec enumerate_eq_zip source_for_slot_def
          py_index_def place_page_def compute_upright_size_def rot_of_def)
  note th = shortest_fills_every_slot[of ?S "''letter''" "''center''" 0 0 1 o2 0
              "''portrait''" 0 o4 0]
  from th o2 l2 have 2: "length (merges (o2 ! 0)) = 2" by blast
  from th o4 l4 have 4: "length (merges (o4 ! 0)) = 4" by blast
  have a: "\<exists>out. build_writer_2up ?S ''letter'' ''center'' ''shortest'' 0 0 1 = Inr out
             \<and> 0 < length out \<and> length (merges (out ! 0)) = 2"
    using o2 l2 2 by (intro exI[of _ o2] conjI)
  have b: "\<exists>out. build_writer_4up ?S ''letter'' ''portrait'' ''center'' ''shortest'' 0 0 0 1
                   = Inr out
             \<and> 0 < length out \<and> length (merges (out ! 0)) = 4"
    using o4 l4 4 by (intro exI[of _ o4] conjI)
  from a b show ?thesis by (intro conjI)
qed

section \<open>The transformation and the offsets of a placement\<close>

lemma place_page_fields:
  assumes "place_page pg slot_x slot_y slot_w slot_h zoom align = Inr p"
    and "compute_upright_size pg = (src_w, src_h, rot)"
  shows "src_page p = pg"
    and "transformation p =
           (if rot = 0 then [] else [Rotate (- real_of_int rot)])
           @ [Scale (scale p), Translate (x_offset p) (y_offset p)]"
    and "x_offset p = slot_x + (slot_w - src_w * scale p) / 2"
    and "y_offset p = (if align = ''top'' then slot_y + (slot_h - src_h * scale p)
                       else if align = ''bottom'' then slot_y
                       else slot_y + (slot_h - src_h * scale p) / 2)"
    and "scale p = (let z = (if zoom \<le> 0 then 1 else zoom);
                        b = min (slot_w / src_w) (slot_h / src_h)
                    in if b * z > b then b else b * z)"
  using assms
  by (auto simp: place_page_def Let_def split: if_splits)

lemma rotate_zero: "apply_op (Rotate 0) pt = pt"
  by (cases pt) simp

text \<open>
  C7. The transformation handed to the merge, together with the source page itself, is the
  chain \<^verbatim>\<open>rotate(-rot)\<close>, \<^verbatim>\<open>scale(scale)\<close>, \<^verbatim>\<open>translate(x_offset, y_offset)\<close> in
  this order; the rotation step is left out when \<open>rot = 0\<close>, where it is the identity.
  On every point the transformation acts as the rotation by \<open>- rot\<close>, then the uniform
  scale, then the translation.
\<close>

theorem placement_transform_order:
  assumes "place_page pg slot_x slot_y slot_w slot_h zoom align = Inr p"
    and "compute_upright_size pg = (src_w, src_h, rot)"
  shows "src_page p = pg
       \<and> transformation p =
           (if rot = 0 then [] else [Rotate (- real_of_int rot)])
           @ [Scale (scale p), Translate (x_offset p) (y_offset p)]
       \<and> apply_transformation (transformation p) pt =
           apply_op (Translate (x_offset p) (y_offset p))
             (apply_op (Scale (scale p))
               (apply_op (Rotate (- real_of_int rot)) pt))"
proof -
  note f = place_page_fields(1,2)[OF assms]
  have "apply_transformation (transformation p) pt =
           apply_op (Translate (x_offset p) (y_offset p))
             (apply_op (Scale (scale p))
               (apply_op (Rotate (- real_of_int rot)) pt))"
  proof (cases "rot = 0")
    case True
    with f(2) show ?thesis by (simp add: rotate_zero)
  next
    case False
    with f(2) show ?thesis by simp
  qed
  with f show ?thesis by simp
qed

theorem placement_transform_order_witness:
  "place_page \<lparr>rotation = IntValue 90, mediabox_width = 792, mediabox_height = 612\<rparr>
       306 396 306 396 1 ''center''
     = Inr \<lparr>src_page = \<lparr>rotation = IntValue 90, mediabox_width = 792, mediabox_height = 612\<rparr>,
            transformation = [Rotate (- 90), Scale (1 / 2), Translate 306 396],
            base_scale = 1 / 2, scale = 1 / 2, x_offset = 306, y_offset = 396\<rparr>
   \<and> compute_upright_size \<lparr>rotation = IntValue 90, mediabox_width = 792, mediabox_height = 612\<rparr>
     = (612, 792, 90)
   \<and> apply_transformation [Rotate (- 90), Scale (1 / 2), Translate 306 396] (0, 792)
     = apply_op (Translate 306 396) (apply_op (Scale (1 / 2)) (apply_op (Rotate (- 90)) (0, 792)))"
proof -
  let ?B = "\<lparr>rotation = IntValue 90, mediabox_width = 792, mediabox_height = 612\<rparr>"
  have e: "place_page ?B 306 396 306 396 1 ''center''
     = Inr \<lparr>src_page = ?B,
            transformation = [Rotate (- 90), Scale (1 / 2), Translate 306 396],
            base_scale = 1 / 2, scale = 1 / 2, x_offset = 306, y_offset = 396\<rparr>"
    by (simp add: place_page_def compute_upright_size_def rot_of_def Let_def)
  have u: "compute_upright_size ?B = (612, 792, 90)"
    by (simp add: compute_upright_size_def rot_of_def)
  from placement_transform_order[OF e u, of "(0, 792)"] e u show ?thesis by simp
qed

text \<open>
  C8. The horizontal offset is \<open>slot_x + (slot_w - src_w * scale) / 2\<close> whatever the
  alignment is, and the scale does not depend on the alignment either. The vertical
  offset is \<open>slot_y + (slot_h - src_h * scale)\<close> for \<^verbatim>\<open>top\<close>, \<open>slot_y\<close> for
  \<^verbatim>\<open>bottom\<close> and \<open>slot_y + (slot_h - src_h * scale) / 2\<close> for \<^verbatim>\<open>center\<close>; when the
  slot is higher than the scaled page, top \<open>\<ge>\<close> center \<open>\<ge>\<close> bottom.
\<close>

theorem alignment_offsets:
  assumes "compute_upright_size pg = (src_w, src_h, rot)"
    and "place_page pg slot_x slot_y slot_w slot_h zoom align = Inr pa"
    and "place_page pg slot_x slot_y slot_w slot_h zoom ''top'' = Inr pt"
    and "place_page pg slot_x slot_y slot_w slot_h zoom ''center'' = Inr pc"
    and "place_page pg slot_x slot_y slot_w slot_h zoom ''bottom'' = Inr pb"
  shows "x_offset pa = slot_x + (slot_w - src_w * scale pa) / 2
       \<and> scale pa = scale pc \<and> scale pt = scale pc \<and> scale pb = scale pc
       \<and> x_offset pa = x_offset pc \<and> x_offset pt = x_offset pc \<and> x_offset pb = x_offset pc
       \<and> y_offset pt = slot_y + (slot_h - src_h * scale pc)
       \<and> y_offset pc = slot_y + (slot_h - src_h * scale pc) / 2
       \<and> y_offset pb = slot_y
       \<and> (src_h * scale pc < slot_h \<longrightarrow> y_offset pc \<le> y_offset pt \<and> y_offset pb \<le> y_offset pc)"
proof -
  note a = place_page_fields(3,4,5)[OF assms(2) assms(1)]
  note t = place_page_fields(3,4,5)[OF assms(3) assms(1)]
  note c = place_page_fields(3,4,5)[OF assms(4) assms(1)]
  note b = place_page_fields(3,4,5)[OF assms(5) assms(1)]
  have s: "scale pa = scale pc" "scale pt = scale pc" "scale pb = scale pc"
    using a(3) t(3) c(3) b(3) by simp_all
  have x: "x_offset pa = slot_x + (slot_w - src_w * scale pa) / 2"
    "x_offset pa = x_offset pc" "x_offset pt = x_offset pc" "x_offset pb = x_offset pc"
    using a(1) t(1) c(1) b(1) s by simp_all
  have y: "y_offset pt = slot_y + (slot_h - src_h * scale pc)"
    "y_offset pc = slot_y + (slot_h - src_h * scale pc) / 2"
    "y_offset pb = slot_y"
    using t(2) c(2) b(2) s by simp_all
  have m: "src_h * scale pc < slot_h \<longrightarrow> y_offset pc \<le> y_offset pt \<and> y_offset pb \<le> y_offset pc"
    unfolding y by auto
  from s x y m show ?thesis by simp
qed

theorem alignment_offsets_witness:
  "compute_upright_size \<lparr>rotation = NoAttr, mediabox_width = 612, mediabox_height = 792\<rparr>
     = (612, 792, 0)
   \<and> place_page \<lparr>rotation = NoAttr, mediabox_width = 612, mediabox_height = 792\<rparr>
       0 0 396 612 1 ''top''
     = Inr \<lparr>src_page = \<lparr>rotation = NoAttr, mediabox_width = 612, mediabox_height = 792\<rparr>,
            transformation = [Scale (11 / 17), Translate 0 (1692 / 17)],
            base_scale = 11 / 17, scale = 11 / 17, x_offset = 0, y_offset = 1692 / 17\<rparr>
   \<and> place_page \<lparr>rotation = NoAttr, mediabox_width = 612, mediabox_height = 792\<rparr>
       0 0 396 612 1 ''center''
     = Inr \<lparr>src_page = \<lparr>rotation = NoAttr, mediabox_width = 612, mediabox_height = 792\<rparr>,
            transformation = [Scale (11 / 17), Translate 0 (846 / 17)],
            base_scale = 11 / 17, scale = 11 / 17, x_offset = 0, y_offset = 846 / 17\<rparr>
   \<and> place_page \<lparr>rotation = NoAttr, mediabox_width = 612, mediabox_height = 792\<rparr>
       0 0 396 612 1 ''bottom''
     = Inr \<lparr>src_page = \<lparr>rotation = NoAttr, mediabox_width = 612, mediabox_height = 792\<rparr>,
            transformation = [Scale (11 / 17), Translate 0 0],
            base_scale = 11 / 17, scale = 11 / 17, x_offset = 0, y_offset = 0\<rparr>
   \<and> 792 * (11 / 17) < (612::real)
   \<and> (846 / 17 :: real) \<le> 1692 / 17 \<and> (0::real) \<le> 846 / 17"
proof -
  let ?A = "\<lparr>rotation = NoAttr, mediabox_width = 612, mediabox_height = 792\<rparr>"
  have u: "compute_upright_size ?A = (612, 792, 0)"
    by (simp add: compute_upright_size_def rot_of_def)
  have pt: "place_page ?A 0 0 396 612 1 ''top''
     = Inr \<lparr>src_page = ?A, transformation = [Scale (11 / 17), Translate 0 (1692 / 17)],
            base_scale = 11 / 17, scale = 11 / 17, x_offset = 0, y_offset = 1692 / 17\<rparr>"
    by (simp add: place_page_def compute_upright_size_def rot_of_def Let_def)
  have pc: "place_page ?A 0 0 396 612 1 ''center''
     = Inr \<lparr>src_page = ?A, transformation = [Scale (11 / 17), Translate 0 (846 / 17)],
            base_scale = 11 / 17, scale = 11 / 17, x_offset = 0, y_offset = 846 / 17\<rparr>"
    by (simp add: place_page_def compute_upright_size_def rot_of_def Let_def)
  have pb: "place_page ?A 0 0 396 612 1 ''bottom''
     = Inr \<lparr>src_page = ?A, transformation = [Scale (11 / 17), Translate 0 0],
            base_scale = 11 / 17, scale = 11 / 17, x_offset = 0, y_offset = 0\<rparr>"
    by (simp add: place_page_def compute_upright_size_def rot_of_def Let_def)
  from alignment_offsets[OF u pt pt pc pb] u pt pc pb show ?thesis by simp
qed

section \<open>Sheet layout and configuration errors\<close>

lemma compose_sheet_dims:
  assumes "compose sources W H slots zoom align stop_mode = Inr out" and "sh \<in> set out"
  shows "sheet_width sh = W \<and> sheet_height sh = H"
proof -
  from assms(2) obtain i where "i < length out" and "sh = out ! i"
    by (auto simp: in_set_conv_nth)
  with compose_sheet_pages[OF assms(1), of i] show ?thesis by simp
qed

text \<open>
  C9. For a sheet size of the table, with base size \<open>(base_w, base_h)\<close>, the 2-up sheet is
  \<open>base_h\<close> wide and \<open>base_w\<close> high, which is landscape; there are exactly two slots, left
  then right, each \<open>(W - 2 * margin - gutter) / 2\<close> wide and \<open>H - 2 * margin\<close> high, the
  right one starting one gutter after the end of the left one; and every sheet of the
  output has the size \<open>W\<close> by \<open>H\<close>.
\<close>

theorem layout_2up_landscape_two_slots:
  assumes "SHEET_SIZES sheet_size = Some (base_w, base_h)"
    and "W = base_h" and "H = base_w"
    and "margin = margin_in * PT_PER_IN" and "gutter = gutter_in * PT_PER_IN"
    and "slot_w = (W - 2 * margin - gutter) / 2" and "slot_h = H - 2 * margin"
  shows "H < W
       \<and> layout_2up sheet_size margin_in gutter_in =
           Inr (W, H, [(margin, margin, slot_w, slot_h),
                       (margin + slot_w + gutter, margin, slot_w, slot_h)])
       \<and> (build_writer_2up sources sheet_size align stop_mode margin_in gutter_in zoom = Inr out
            \<longrightarrow> (\<forall>sh\<in>set out. sheet_width sh = W \<and> sheet_height sh = H))"
proof -
  from assms(1) have "base_w < base_h" by (auto simp: SHEET_SIZES_Some)
  with assms(2,3) have 1: "H < W" by simp
  have 2: "layout_2up sheet_size margin_in gutter_in =
           Inr (W, H, [(margin, margin, slot_w, slot_h),
                       (margin + slot_w + gutter, margin, slot_w, slot_h)])"
    using assms by (simp add: layout_2up_def Let_def)
  have 3: "build_writer_2up sources sheet_size align stop_mode margin_in gutter_in zoom = Inr out
            \<longrightarrow> (\<forall>sh\<in>set out. sheet_width sh = W \<and> sheet_height sh = H)"
  proof (intro impI ballI)
    fix sh
    assume b: "build_writer_2up sources sheet_size align stop_mode margin_in gutter_in zoom
                 = Inr out" and sh: "sh \<in> set out"
    from b 2 have "compose sources W H [(margin, margin, slot_w, slot_h),
                       (margin + slot_w + gutter, margin, slot_w, slot_h)] zoom align stop_mode
                     = Inr out"
      by (simp add: build_writer_2up_def)
    from compose_sheet_dims[OF this sh] show "sheet_width sh = W \<and> sheet_height sh = H" .
  qed
  from 1 2 3 show ?thesis by (intro conjI)
qed

theorem layout_2up_landscape_two_slots_witness:
  "SHEET_SIZES ''a4'' = Some (595, 842)
   \<and> (595::real) < 842
   \<and> layout_2up ''a4'' (1 / 2) (1 / 4) =
       Inr (842, 595, [(36, 36, 376, 523), (430, 36, 376, 523)])
   \<and> build_writer_2up [[\<lparr>rotation = NoAttr, mediabox_width = 376, mediabox_height = 523\<rparr>]]
        ''a4'' ''center'' ''longest'' (1 / 2) (1 / 4) 1
      = Inr [\<lparr>sheet_width = 842, sheet_height = 595,
              merges =
                [\<lparr>src_page = \<lparr>rotation = NoAttr, mediabox_width = 376, mediabox_height = 523\<rparr>,
                  transformation = [Scale 1, Translate 36 36],
                  base_scale = 1, scale = 1, x_offset = 36, y_offset = 36\<rparr>,
                 \<lparr>src_page = \<lparr>rotation = NoAttr, mediabox_width = 376, mediabox_height = 523\<rparr>,
                  transformation = [Scale 1, Translate 430 36],
                  base_scale = 1, scale = 1, x_offset = 430, y_offset = 36\<rparr>]\<rparr>]"
proof -
  let ?P = "\<lparr>rotation = NoAttr, mediabox_width = 376, mediabox_height = 523\<rparr>"
  have s: "SHEET_SIZES ''a4'' = Some (595, 842)" by (simp add: SHEET_SIZES_def)
  have m: "(36::real) = 1 / 2 * PT_PER_IN" and g: "(18::real) = 1 / 4 * PT_PER_IN"
    by (simp_all add: PT_PER_IN_def)
  have w: "(376::real) = (842 - 2 * 36 - 18) / 2" and h: "(523::real) = 595 - 2 * 36"
    by simp_all
  have b: "build_writer_2up [[?P]] ''a4'' ''center'' ''longest'' (1 / 2) (1 / 4) 1
      = Inr [\<lparr>sheet_width = 842, sheet_height = 595,
              merges =
                [\<lparr>src_page = ?P, transformation = [Scale 1, Translate 36 36],
                  base_scale = 1, scale = 1, x_offset = 36, y_offset = 36\<rparr>,
                 \<lparr>src_page = ?P, transformation = [Scale 1, Translate 430 36],
                  base_scale = 1, scale = 1, x_offset = 430, y_offset = 36\<rparr>]\<rparr>]"
    by (simp add: build_writer_2up_def layout_2up_def SHEET_SIZES_def PT_PER_IN_def
          compose_def py_max_def Let_def upt_rec enumerate_eq_zip source_for_slot_def
          py_index_def place_page_def compute_upright_size_def rot_of_def)
  from layout_2up_landscape_two_slots[OF s refl refl m g w h,
         of "[[?P]]" "''center''" "''longest''" 1] s b
  show ?thesis by simp
qed

text \<open>
  C6, the claim as stated fails: a 6 inch margin on a letter sheet gives the 2-up slots the
  size \<open>-36\<close> by \<open>-252\<close>, and the run is not refused: it composes a sheet and merges the
  page into both slots.
\<close>

theorem nonpositive_slot_counterexample:
  "main \<lparr>arg_mode = ''2up'', arg_sheet = ''letter'', arg_orientation = ''portrait'',
         arg_align = ''center'', arg_stop = ''longest'', arg_margin_in = 6, arg_gutter_in = 0,
         arg_gutter_y_in = 0, arg_zoom = 1\<rparr>
        [[\<lparr>rotation = NoAttr, mediabox_width = 36, mediabox_height = 252\<rparr>]]
     = Inr (Wrote
         [\<lparr>sheet_width = 792, sheet_height = 612,
           merges =
             [\<lparr>src_page = \<lparr>rotation = NoAttr, mediabox_width = 36, mediabox_height = 252\<rparr>,
               transformation = [Scale (- 1), Translate 432 432],
               base_scale = - 1, scale = - 1, x_offset = 432, y_offset = 432\<rparr>,
              \<lparr>src_page = \<lparr>rotation = NoAttr, mediabox_width = 36, mediabox_height = 252\<rparr>,
               transformation = [Scale (- 1), Translate 396 432],
               base_scale = - 1, scale = - 1, x_offset = 396, y_offset = 432\<rparr>]\<rparr>])
   \<and> layout_2up ''letter'' 6 0
     = Inr (792, 612, [(432, 432, - 36, - 252), (396, 432, - 36, - 252)])"
  by (simp add: main_def parse_args_def build_writer_2up_def layout_2up_def SHEET_SIZES_def
        PT_PER_IN_def compose_def py_max_def Let_def upt_rec enumerate_eq_zip
        source_for_slot_def py_index_def place_page_def compute_upright_size_def rot_of_def)

text \<open>
  C6, amended. A run whose mode, sheet size, orientation, alignment or stop policy is not
  one of the declared choices ends in argument parsing, with exit status 2, before any
  sheet is composed; and a builder called with a sheet size that is not in the table raises
  \<^verbatim>\<open>ValueError\<close> before it composes any sheet. (Slot dimensions are not checked.)
\<close>

theorem unrecognized_token_rejected:
  "(arg_mode a \<notin> {''2up'', ''4up''} \<or> arg_sheet a \<notin> {''letter'', ''a4''}
      \<or> arg_orientation a \<notin> {''portrait'', ''landscape''}
      \<or> arg_align a \<notin> {''center'', ''top'', ''bottom''}
      \<or> arg_stop a \<notin> {''longest'', ''shortest''}
     \<longrightarrow> main a inputs = Inl (SystemExit 2))
   \<and> (sheet_size \<notin> {''letter'', ''a4''} \<longrightarrow>
        build_writer_2up sources sheet_size align stop_mode margin_in gutter_in zoom
          = Inl ValueError
        \<and> build_writer_4up sources sheet_size orientation align stop_mode margin_in gutter_in
            gutter_y_in zoom = Inl ValueError)"
proof (intro conjI impI)
  assume "arg_mode a \<notin> {''2up'', ''4up''} \<or> arg_sheet a \<notin> {''letter'', ''a4''}
      \<or> arg_orientation a \<notin> {''portrait'', ''landscape''}
      \<or> arg_align a \<notin> {''center'', ''top'', ''bottom''}
      \<or> arg_stop a \<notin> {''longest'', ''shortest''}"
  then have "parse_args a = Inl (SystemExit 2)"
    by (auto simp: parse_args_def)
  then show "main a inputs = Inl (SystemExit 2)" by (simp add: main_def)
next
  assume "sheet_size \<notin> {''letter'', ''a4''}"
  then have n: "SHEET_SIZES sheet_size = None" by (simp add: SHEET_SIZES_def)
  then show "build_writer_2up sources sheet_size align stop_mode margin_in gutter_in zoom
          = Inl ValueError"
    by (simp add: build_writer_2up_def layout_2up_def)
  from n show "build_writer_4up sources sheet_size orientation align stop_mode margin_in
            gutter_in gutter_y_in zoom = Inl ValueError"
    by (simp add: build_writer_4up_def layout_4up_def)
qed

theorem unrecognized_token_rejected_witness:
  "main \<lparr>arg_mode = ''2up'', arg_sheet = ''letter'', arg_orientation = ''portrait'',
         arg_align = ''middle'', arg_stop = ''longest'', arg_margin_in = 0, arg_gutter_in = 0,
         arg_gutter_y_in = 0, arg_zoom = 1\<rparr>
        [[\<lparr>rotation = NoAttr, mediabox_width = 612, mediabox_height = 792\<rparr>]]
     = Inl (SystemExit 2)
   \<and> build_writer_2up [[\<lparr>rotation = NoAttr, mediabox_width = 612, mediabox_height = 792\<rparr>]]
        ''legal'' ''center'' ''longest'' 0 0 1 = Inl ValueError
   \<and> build_writer_4up [[\<lparr>rotation = NoAttr, mediabox_width = 612, mediabox_height = 792\<rparr>]]
        ''legal'' ''portrait'' ''center'' ''longest'' 0 0 0 1 = Inl ValueError"
  using unrecognized_token_rejected
    [of "\<lparr>arg_mode = ''2up'', arg_sheet = ''letter'', arg_orientation = ''portrait'',
         arg_align = ''middle'', arg_stop = ''longest'', arg_margin_in = 0, arg_gutter_in = 0,
         arg_gutter_y_in = 0, arg_zoom = 1\<rparr>"
        "[[\<lparr>rotation = NoAttr, mediabox_width = 612, mediabox_height = 792\<rparr>]]"
        "''legal''"
        "[[\<lparr>rotation = NoAttr, mediabox_width = 612, mediabox_height = 792\<rparr>]]"
        "''center''" "''longest''" 0 0 1 "''portrait''" 0]
  by simp

end
